theory Spec2Isabelle
  imports Main "HOL-Library.Sublist"
begin

section \<open>The login script (scripts/login.js) as a state-passing program\<close>

text \<open>
  The script drives a headless browser through a fixed sequence of calls and reports
  through a chat notifier. Every call of the script that reaches the outside (the browser,
  the page, the file system, the chat service, the console) is an \<open>event\<close>; a run
  appends the events to a trace in the order the script issues them. What the outside
  answers is a parameter of the run, the \<open>world\<close>: for each call whether it
  throws, and for each query the value it returns. The script has no loop, so every call
  site runs at most once in a run, and the world gives one answer for each call. Only
  the idle wait of 30 seconds is issued from two sites; at the first one its outcome is
  dropped, so the world's answer is the one the second site gets.
\<close>

subsection \<open>Data\<close>

text \<open>
  The locators of the script. The three text locators are regular expressions that
  also list Chinese words; the model names them by their role.
  \<^item> \<open>ChallengeText\<close>: \<^verbatim>\<open>text=/Verify you are human|...|review the security/i\<close>, first match
  \<^item> \<open>UsernameInput\<close>: \<^verbatim>\<open>input[name="username"]\<close>
  \<^item> \<open>PasswordInput\<close>: \<^verbatim>\<open>input[name="password"]\<close>
  \<^item> \<open>SubmitButton\<close>: \<^verbatim>\<open>button[type="submit"]\<close>
  \<^item> \<open>SuccessText\<close>: \<^verbatim>\<open>text=/Dashboard|Logout|Sign out|.../i\<close>, first match
  \<^item> \<open>ServerLink\<close>: \<^verbatim>\<open>a[href="/server/71178ed1"]\<close>
  \<^item> \<open>ConsoleMenu\<close>: \<^verbatim>\<open>a[href="/server/71178ed1"].active\<close>
  \<^item> \<open>RestartButton\<close>: \<^verbatim>\<open>button:has-text("Restart")\<close>
  \<^item> \<open>CommandInput\<close>: \<^verbatim>\<open>input[placeholder="Type a command..."]\<close>
  \<^item> \<open>ErrorText\<close>: \<^verbatim>\<open>text=/Invalid|incorrect|.../i\<close>
\<close>

datatype locator =
    ChallengeText | UsernameInput | PasswordInput | SubmitButton | SuccessText
  | ServerLink | ConsoleMenu | RestartButton | CommandInput | ErrorText

text \<open>
  The \<open>stage\<close> labels passed to the notifier (Chinese strings in the source), in the
  order of their call sites: opening the login page, login succeeded, server page
  entered, Restart clicked, command executed, login failed, exception.
\<close>

datatype stage =
    StageOpenLogin | StageLoginOk | StageServerPage | StageRestart | StageCommandDone
  | StageLoginFailed | StageException

text \<open>
  What the script can throw: \<open>envOrThrow\<close>'s error for an unset variable, and an
  error thrown by a call to the outside, with its message.
\<close>

datatype exn = EnvNotSet string | Thrown string

text \<open>
  The \<open>msg\<close> texts passed to the notifier (Chinese strings in the source): challenge
  page detected; the current URL; server detail opened; the VPS is restarting; restart.sh
  has run; suspected failure with the page's error text; still on the login page; and
  \<^verbatim>\<open>e?.message || String(e)\<close> of a caught exception.
\<close>

datatype msg =
    MsgHumanCheck | MsgCurrentUrl string | MsgServerOpened | MsgRestarting | MsgScriptRan
  | MsgSuspected string | MsgStillOnLogin | MsgOfExn exn

text \<open>The argument object of \<open>notifyTelegram\<close>.\<close>

record notice =
  ok :: bool
  stage :: stage
  msg :: msg
  screenshotPath :: "string option"

text \<open>The two warnings the notifier logs: delivery skipped, and delivery failed.\<close>

datatype warning = WarnNotConfigured | WarnDeliveryFailed exn

datatype event =
    Launch                         \<comment> \<open>\<^verbatim>\<open>chromium.launch\<close>\<close>
  | NewContext                     \<comment> \<open>\<^verbatim>\<open>browser.newContext\<close>\<close>
  | NewPage                        \<comment> \<open>\<^verbatim>\<open>context.newPage\<close>\<close>
  | Goto string nat                \<comment> \<open>\<^verbatim>\<open>page.goto(url, timeout)\<close>\<close>
  | Count locator                  \<comment> \<open>\<^verbatim>\<open>locator.count()\<close>\<close>
  | Screenshot string              \<comment> \<open>\<^verbatim>\<open>page.screenshot({path})\<close>\<close>
  | WaitVisible locator nat        \<comment> \<open>\<^verbatim>\<open>locator.waitFor({state: 'visible', timeout})\<close>\<close>
  | Fill locator string            \<comment> \<open>\<^verbatim>\<open>locator.fill(text)\<close>\<close>
  | Click locator "nat option"     \<comment> \<open>\<^verbatim>\<open>locator.click({timeout})\<close>\<close>
  | WaitIdle nat                   \<comment> \<open>\<^verbatim>\<open>page.waitForLoadState('networkidle', {timeout})\<close>\<close>
  | Sleep nat                      \<comment> \<open>\<^verbatim>\<open>page.waitForTimeout(ms)\<close>\<close>
  | Press locator string           \<comment> \<open>\<^verbatim>\<open>locator.press(key)\<close>\<close>
  | InnerText locator              \<comment> \<open>\<^verbatim>\<open>locator.first().innerText()\<close>\<close>
  | CloseContext                   \<comment> \<open>\<^verbatim>\<open>context.close\<close>\<close>
  | CloseBrowser                   \<comment> \<open>\<^verbatim>\<open>browser.close\<close>\<close>
  | Notify notice                  \<comment> \<open>\<open>notifyTelegram\<close> is entered\<close>
  | LogWarn warning                \<comment> \<open>\<^verbatim>\<open>console.log('[WARN] ...')\<close>\<close>
  | SendMessage bool stage msg     \<comment> \<open>\<^verbatim>\<open>fetch(.../sendMessage)\<close>; the text is built from these three\<close>
  | ReadFile string                \<comment> \<open>\<^verbatim>\<open>fs.readFileSync(path)\<close>\<close>
  | SendPhoto stage string         \<comment> \<open>\<^verbatim>\<open>fetch(.../sendPhoto)\<close>; caption from the stage, photo from the path\<close>

text \<open>
  The outside. \<open>fault\<close> answers the calls of \<open>main\<close> (the message of the error
  the call throws, \<open>None\<close> when it returns), \<open>deliveryFault\<close> the calls of the
  notifier. The other fields are the values the page returns when asked.
\<close>

record world =
  env :: "string \<Rightarrow> string option"      \<comment> \<open>\<^verbatim>\<open>process.env\<close>\<close>
  disk :: "string set"                           \<comment> \<open>the files that exist when the run starts\<close>
  fault :: "event \<Rightarrow> string option"
  deliveryFault :: "event \<Rightarrow> string option"
  challengeCount :: nat                          \<comment> \<open>\<^verbatim>\<open>humanCheckText.count()\<close>\<close>
  pageUrl :: string                              \<comment> \<open>\<^verbatim>\<open>page.url()\<close> after the submission\<close>
  successCount :: nat                            \<comment> \<open>\<open>successHint\<close>\<close>
  errorCount :: nat                              \<comment> \<open>\<open>hasError\<close>\<close>
  errorText :: string                            \<comment> \<open>what \<open>innerText\<close> returns when it returns\<close>

text \<open>What a run changes: the trace, \<^verbatim>\<open>process.exitCode\<close>, and the files on disk.\<close>

record state =
  trace :: "event list"
  exitCode :: "nat option"
  files :: "string set"

text \<open>
  A step of the script takes the state and returns the exception it throws, if any, with
  the state it leaves.
\<close>

type_synonym step = "state \<Rightarrow> exn option \<times> state"

subsection \<open>Sequencing, and the calls to the outside\<close>

definition emit :: "event \<Rightarrow> state \<Rightarrow> state" where
  "emit e s = s\<lparr>trace := trace s @ [e]\<rparr>"

text \<open>Statements in sequence: the first one that throws ends the block.\<close>

fun steps :: "step list \<Rightarrow> step" where
  "steps [] s = (None, s)"
| "steps (f # fs) s = (case f s of (Some e, s') \<Rightarrow> (Some e, s') | (None, s') \<Rightarrow> steps fs s')"

text \<open>An awaited call of \<open>main\<close>: it is issued, and throws if the world says so.\<close>

definition call :: "world \<Rightarrow> event \<Rightarrow> step" where
  "call w e s = (map_option Thrown (fault w e), emit e s)"

text \<open>The same for the notifier's calls.\<close>

definition deliver :: "world \<Rightarrow> event \<Rightarrow> step" where
  "deliver w e s = (map_option Thrown (deliveryFault w e), emit e s)"

text \<open>\<^verbatim>\<open>page.screenshot({ path, fullPage: true })\<close>: when it returns, the file exists.\<close>

definition page_screenshot :: "world \<Rightarrow> string \<Rightarrow> step" where
  "page_screenshot w p s =
     (case fault w (Screenshot p) of
        Some m \<Rightarrow> (Some (Thrown m), emit (Screenshot p) s)
      | None \<Rightarrow> (None, (emit (Screenshot p) s)\<lparr>files := insert p (files s)\<rparr>))"

text \<open>\<^verbatim>\<open>.catch(() => {})\<close> and \<^verbatim>\<open>try { ... } catch {}\<close>: the exception is dropped.\<close>

definition swallow :: "step \<Rightarrow> step" where
  "swallow f s = (None, snd (f s))"

definition setExitCode :: "nat \<Rightarrow> step" where
  "setExitCode c s = (None, s\<lparr>exitCode := Some c\<rparr>)"

text \<open>
  \<^verbatim>\<open>try { body } catch (e) { handler } finally { finalizer }\<close>: the finalizer runs on
  every way out of the body and the handler; an exception of the finalizer replaces the
  pending one.
\<close>

definition try_catch_finally :: "step \<Rightarrow> (exn \<Rightarrow> step) \<Rightarrow> step \<Rightarrow> step" where
  "try_catch_finally body handler finalizer s =
     (case body s of
        (None, s1) \<Rightarrow> finalizer s1
      | (Some e, s1) \<Rightarrow>
          (case handler e s1 of
             (None, s2) \<Rightarrow> finalizer s2
           | (Some e', s2) \<Rightarrow>
               (case finalizer s2 of
                  (None, s3) \<Rightarrow> (Some e', s3)
                | (Some e'', s3) \<Rightarrow> (Some e'', s3))))"

subsection \<open>notifyTelegram\<close>

text \<open>JavaScript's \<open>!v\<close> for a string that may be undefined.\<close>

fun falsy :: "string option \<Rightarrow> bool" where
  "falsy None = True"
| "falsy (Some v) = (v = [])"

text \<open>
  Lines 35 to 42: the photo is sent when
  \<^verbatim>\<open>screenshotPath && fs.existsSync(screenshotPath)\<close>; the file is read, then
  posted by a second \<open>fetch\<close>.
\<close>

definition sendPhoto :: "world \<Rightarrow> notice \<Rightarrow> step" where
  "sendPhoto w n s =
     (case screenshotPath n of
        None \<Rightarrow> (None, s)
      | Some p \<Rightarrow>
          if p \<noteq> [] \<and> p \<in> files s
          then steps [deliver w (ReadFile p), deliver w (SendPhoto (stage n) p)] s
          else (None, s))"

text \<open>The body of the notifier's \<open>try\<close>.\<close>

definition notify_body :: "world \<Rightarrow> notice \<Rightarrow> step" where
  "notify_body w n s =
     (if falsy (env w ''TELEGRAM_BOT_TOKEN'') \<or> falsy (env w ''TELEGRAM_CHAT_ID'')
      then (None, emit (LogWarn WarnNotConfigured) s)
      else steps [deliver w (SendMessage (ok n) (stage n) (msg n)), sendPhoto w n] s)"

text \<open>The \<open>try\<close> with its \<open>catch\<close>, which logs the failure and returns.\<close>

definition notifyTelegram :: "world \<Rightarrow> notice \<Rightarrow> step" where
  "notifyTelegram w n s =
     (case notify_body w n (emit (Notify n) s) of
        (None, s') \<Rightarrow> (None, s')
      | (Some e, s') \<Rightarrow> (None, emit (LogWarn (WarnDeliveryFailed e)) s'))"

subsection \<open>envOrThrow\<close>

definition envOrThrow :: "world \<Rightarrow> string \<Rightarrow> exn + string" where
  "envOrThrow w name =
     (case env w name of
        None \<Rightarrow> Inl (EnvNotSet name)
      | Some v \<Rightarrow> if v = [] then Inl (EnvNotSet name) else Inr v)"

subsection \<open>main\<close>

definition LOGIN_URL :: string where
  "LOGIN_URL = ''https://ctrl.lunes.host/auth/login''"

text \<open>\<^verbatim>\<open>const screenshot = (name) => `./${name}.png`\<close>\<close>

definition screenshot :: "string \<Rightarrow> string" where
  "screenshot name = ''./'' @ name @ ''.png''"

text \<open>
  \<^verbatim>\<open>/\/auth\/login/i.test(url)\<close>: the pattern occurs somewhere in the URL, letters
  compared without case. The pattern is ASCII, and without the \<open>u\<close> flag a character
  outside ASCII never matches an ASCII letter, so folding \<open>A\<close>..\<open>Z\<close> is all the
  flag does here.
\<close>

definition fold_case :: "char \<Rightarrow> char" where
  "fold_case c =
     (if 65 \<le> (of_char c :: nat) \<and> (of_char c :: nat) \<le> 90
      then char_of ((of_char c :: nat) + 32) else c)"

fun occurs :: "string \<Rightarrow> string \<Rightarrow> bool" where
  "occurs p [] = (p = [])"
| "occurs p (c # cs) = (prefix p (c # cs) \<or> occurs p cs)"

definition stillOnLogin :: "string \<Rightarrow> bool" where
  "stillOnLogin url = occurs ''/auth/login'' (map fold_case url)"

text \<open>The condition of line 110.\<close>

definition loginSucceeded :: "world \<Rightarrow> bool" where
  "loginSucceeded w = (\<not> stillOnLogin (pageUrl w) \<or> successCount w > 0)"

text \<open>The block run when a challenge is detected (lines 75 to 79).\<close>

definition blocked :: "world \<Rightarrow> step" where
  "blocked w =
     steps
       [page_screenshot w (screenshot ''01-human-check''),
        notifyTelegram w \<lparr>ok = False, stage = StageOpenLogin, msg = MsgHumanCheck,
          screenshotPath = Some (screenshot ''01-human-check'')\<rparr>,
        setExitCode 2]"

text \<open>
  Filling the form and submitting it (lines 83 to 107). \<^verbatim>\<open>Promise.all\<close> starts
  the idle wait, whose exception is dropped, and the click, whose exception ends the
  block.
\<close>

definition submit :: "world \<Rightarrow> string \<Rightarrow> string \<Rightarrow> step" where
  "submit w username password =
     steps
       [call w (WaitVisible UsernameInput 30000),
        call w (WaitVisible PasswordInput 30000),
        call w (Fill UsernameInput username),
        call w (Fill PasswordInput password),
        call w (WaitVisible SubmitButton 15000),
        page_screenshot w (screenshot ''02-before-submit''),
        swallow (call w (WaitIdle 30000)),
        call w (Click SubmitButton (Some 10000)),
        page_screenshot w (screenshot ''03-after-submit''),
        call w (Count SuccessText)]"

text \<open>The block run after a successful login (lines 111 to 154).\<close>

definition downstream :: "world \<Rightarrow> step" where
  "downstream w =
     steps
       [notifyTelegram w \<lparr>ok = True, stage = StageLoginOk, msg = MsgCurrentUrl (pageUrl w),
          screenshotPath = Some (screenshot ''03-after-submit'')\<rparr>,
        call w (WaitVisible ServerLink 20000),
        call w (Click ServerLink (Some 10000)),
        call w (WaitIdle 30000),
        page_screenshot w (screenshot ''04-server-page''),
        notifyTelegram w \<lparr>ok = True, stage = StageServerPage, msg = MsgServerOpened,
          screenshotPath = Some (screenshot ''04-server-page'')\<rparr>,
        call w (WaitVisible ConsoleMenu 15000),
        call w (Click ConsoleMenu (Some 5000)),
        call w (WaitIdle 10000),
        call w (WaitVisible RestartButton 15000),
        call w (Click RestartButton None),
        notifyTelegram w \<lparr>ok = True, stage = StageRestart, msg = MsgRestarting,
          screenshotPath = None\<rparr>,
        call w (Sleep 10000),
        call w (WaitVisible CommandInput 20000),
        call w (Fill CommandInput ''working properly''),
        call w (Press CommandInput ''Enter''),
        call w (Sleep 5000),
        page_screenshot w (screenshot ''05-command-executed''),
        notifyTelegram w \<lparr>ok = True, stage = StageCommandDone, msg = MsgScriptRan,
          screenshotPath = Some (screenshot ''05-command-executed'')\<rparr>,
        setExitCode 0]"

text \<open>
  \<^verbatim>\<open>hasError ? await errorMsgNode.first().innerText().catch(() => '') : ''\<close>: the
  value, and below the calls that compute it.
\<close>

definition errorMsg :: "world \<Rightarrow> string" where
  "errorMsg w =
     (if errorCount w > 0
      then (case fault w (InnerText ErrorText) of None \<Rightarrow> errorText w | Some m \<Rightarrow> [])
      else [])"

text \<open>The block run when the login failed (lines 158 to 167).\<close>

definition loginFailed :: "world \<Rightarrow> step" where
  "loginFailed w =
     steps
       [call w (Count ErrorText),
        (if errorCount w > 0 then swallow (call w (InnerText ErrorText)) else steps []),
        notifyTelegram w \<lparr>ok = False, stage = StageLoginFailed,
          msg = (if errorMsg w \<noteq> [] then MsgSuspected (errorMsg w) else MsgStillOnLogin),
          screenshotPath = Some (screenshot ''03-after-submit'')\<rparr>,
        setExitCode 1]"

text \<open>The body of the \<open>try\<close> of \<open>main\<close>.\<close>

definition workflow :: "world \<Rightarrow> string \<Rightarrow> string \<Rightarrow> step" where
  "workflow w username password =
     steps
       [call w (Goto LOGIN_URL 60000),
        call w (Count ChallengeText),
        (if challengeCount w > 0 then blocked w
         else steps
           [submit w username password,
            (if loginSucceeded w then downstream w else loginFailed w)])]"

text \<open>
  The \<open>catch\<close> of \<open>main\<close>. The notice carries the path of the error
  screenshot when \<^verbatim>\<open>fs.existsSync(sp)\<close>.
\<close>

definition notifyException :: "world \<Rightarrow> exn \<Rightarrow> step" where
  "notifyException w e s =
     notifyTelegram w \<lparr>ok = False, stage = StageException, msg = MsgOfExn e,
       screenshotPath =
         (if screenshot ''99-error'' \<in> files s then Some (screenshot ''99-error'') else None)\<rparr> s"

definition onException :: "world \<Rightarrow> exn \<Rightarrow> step" where
  "onException w e =
     steps
       [swallow (page_screenshot w (screenshot ''99-error'')),
        notifyException w e,
        setExitCode 1]"

text \<open>The \<open>finally\<close> of \<open>main\<close>.\<close>

definition release :: "world \<Rightarrow> step" where
  "release w = steps [call w CloseContext, call w CloseBrowser]"

definition initial :: "world \<Rightarrow> state" where
  "initial w = \<lparr>trace = [], exitCode = None, files = disk w\<rparr>"

text \<open>
  \<open>main\<close>. The result is the exception \<open>main\<close> rejects with, if any, and the final
  state. The two \<open>envOrThrow\<close> calls, the launch, the context and the page come before
  the \<open>try\<close>.
\<close>

definition main :: "world \<Rightarrow> exn option \<times> state" where
  "main w =
     (case envOrThrow w ''LUNES_USERNAME'' of
        Inl e \<Rightarrow> (Some e, initial w)
      | Inr username \<Rightarrow>
          (case envOrThrow w ''LUNES_PASSWORD'' of
             Inl e \<Rightarrow> (Some e, initial w)
           | Inr password \<Rightarrow>
               steps
                 [call w Launch,
                  call w NewContext,
                  call w NewPage,
                  try_catch_finally (workflow w username password) (onException w) (release w)]
                 (initial w)))"

section \<open>Observing a run\<close>

text \<open>
  The events of the notifier's own calls (the two requests, the file read, the
  warnings), and the trace without them: what \<open>main\<close> itself does, with one
  \<open>Notify\<close> for each invocation of the notifier.
\<close>

definition is_delivery :: "event \<Rightarrow> bool" where
  "is_delivery e =
     (case e of LogWarn _ \<Rightarrow> True | SendMessage _ _ _ \<Rightarrow> True | ReadFile _ \<Rightarrow> True
      | SendPhoto _ _ \<Rightarrow> True | _ \<Rightarrow> False)"

definition runner_view :: "event list \<Rightarrow> event list" where
  "runner_view = filter (\<lambda>e. \<not> is_delivery e)"

text \<open>The events of one invocation of the notifier, given the files on disk.\<close>

definition notifier_events :: "world \<Rightarrow> notice \<Rightarrow> string set \<Rightarrow> event list" where
  "notifier_events w n F =
     trace (snd (notifyTelegram w n \<lparr>trace = [], exitCode = None, files = F\<rparr>))"

text \<open>The screenshots taken and the notices given to the notifier, in trace order.\<close>

definition screenshots :: "event list \<Rightarrow> string list" where
  "screenshots es = concat (map (\<lambda>e. case e of Screenshot p \<Rightarrow> [p] | _ \<Rightarrow> []) es)"

definition notices :: "event list \<Rightarrow> notice list" where
  "notices es = concat (map (\<lambda>e. case e of Notify n \<Rightarrow> [n] | _ \<Rightarrow> []) es)"

text \<open>
  A step that only appends events to the trace, each of them allowed. Every step of the
  script appends; which events a block can append is what separates the blocks.
\<close>

definition adds_only :: "(event \<Rightarrow> bool) \<Rightarrow> step \<Rightarrow> bool" where
  "adds_only allowed f =
     (\<forall>s. \<exists>xs. trace (snd (f s)) = trace s @ xs \<and> list_all allowed xs)"

subsection \<open>The worlds the claims speak of\<close>

definition usernameOf :: "world \<Rightarrow> string" where
  "usernameOf w = (case env w ''LUNES_USERNAME'' of None \<Rightarrow> [] | Some v \<Rightarrow> v)"

definition passwordOf :: "world \<Rightarrow> string" where
  "passwordOf w = (case env w ''LUNES_PASSWORD'' of None \<Rightarrow> [] | Some v \<Rightarrow> v)"

text \<open>Both credentials are set and not empty.\<close>

definition credentials :: "world \<Rightarrow> bool" where
  "credentials w =
     (\<not> falsy (env w ''LUNES_USERNAME'') \<and> \<not> falsy (env w ''LUNES_PASSWORD''))"

text \<open>The chat token and the channel id are set and not empty.\<close>

definition chat_configured :: "world \<Rightarrow> bool" where
  "chat_configured w =
     (\<not> falsy (env w ''TELEGRAM_BOT_TOKEN'') \<and> \<not> falsy (env w ''TELEGRAM_CHAT_ID''))"

text \<open>
  What a call of \<open>main\<close> throws in a world. Entering the notifier is no call to the
  outside: the world is not asked.
\<close>

definition throws :: "world \<Rightarrow> event \<Rightarrow> string option" where
  "throws w e = (case e of Notify _ \<Rightarrow> None | _ \<Rightarrow> fault w e)"

definition returns :: "world \<Rightarrow> event list \<Rightarrow> bool" where
  "returns w es = (\<forall>e \<in> set es. throws w e = None)"

text \<open>
  Of a sequence of calls issued one after the other, the ones that are issued: all up to
  and including the first that throws.
\<close>

fun attempted :: "world \<Rightarrow> event list \<Rightarrow> event list" where
  "attempted w [] = []"
| "attempted w (e # es) = e # (case throws w e of None \<Rightarrow> attempted w es | Some m \<Rightarrow> [])"

text \<open>The calls of a run in the order of the source, block by block.\<close>

definition launching :: "event list" where
  "launching = [Launch, NewContext, NewPage]"

definition arriving :: "event list" where
  "arriving = [Goto LOGIN_URL 60000, Count ChallengeText]"

definition submitting :: "world \<Rightarrow> event list" where
  "submitting w =
     [WaitVisible UsernameInput 30000, WaitVisible PasswordInput 30000,
      Fill UsernameInput (usernameOf w), Fill PasswordInput (passwordOf w),
      WaitVisible SubmitButton 15000, Screenshot (screenshot ''02-before-submit''),
      WaitIdle 30000, Click SubmitButton (Some 10000),
      Screenshot (screenshot ''03-after-submit''), Count SuccessText]"

text \<open>
  The downstream sequence as the specification lists it: success notice, server page
  (wait, click, idle, screenshot, notice), console (wait, click, idle), restart (wait,
  click, notice at once), sleep, command (wait, type, Enter), sleep, screenshot, notice.
\<close>

definition downstream_sequence :: "world \<Rightarrow> event list" where
  "downstream_sequence w =
     [Notify \<lparr>ok = True, stage = StageLoginOk, msg = MsgCurrentUrl (pageUrl w),
        screenshotPath = Some (screenshot ''03-after-submit'')\<rparr>,
      WaitVisible ServerLink 20000, Click ServerLink (Some 10000), WaitIdle 30000,
      Screenshot (screenshot ''04-server-page''),
      Notify \<lparr>ok = True, stage = StageServerPage, msg = MsgServerOpened,
        screenshotPath = Some (screenshot ''04-server-page'')\<rparr>,
      WaitVisible ConsoleMenu 15000, Click ConsoleMenu (Some 5000), WaitIdle 10000,
      WaitVisible RestartButton 15000, Click RestartButton None,
      Notify \<lparr>ok = True, stage = StageRestart, msg = MsgRestarting, screenshotPath = None\<rparr>,
      Sleep 10000,
      WaitVisible CommandInput 20000, Fill CommandInput ''working properly'',
      Press CommandInput ''Enter'',
      Sleep 5000,
      Screenshot (screenshot ''05-command-executed''),
      Notify \<lparr>ok = True, stage = StageCommandDone, msg = MsgScriptRan,
        screenshotPath = Some (screenshot ''05-command-executed'')\<rparr>]"

definition closing :: "event list" where
  "closing = [CloseContext, CloseBrowser]"

text \<open>
  The run comes to the verdict of line 110: the credentials are set, no challenge is
  shown, and no call before the verdict throws (the idle wait of the submission may: its
  exception is dropped).
\<close>

definition reaches_verdict :: "world \<Rightarrow> bool" where
  "reaches_verdict w =
     (credentials w \<and> challengeCount w = 0 \<and>
      returns w (launching @ arriving @ remove1 (WaitIdle 30000) (submitting w)))"

definition verdict_state :: "world \<Rightarrow> state" where
  "verdict_state w =
     \<lparr>trace = launching @ arriving @ submitting w, exitCode = None,
      files = insert (screenshot ''03-after-submit'')
               (insert (screenshot ''02-before-submit'') (disk w))\<rparr>"

text \<open>
  The events that belong to the server, console, restart and command steps, and the
  success notices: what only the downstream block issues.
\<close>

definition is_downstream_step :: "event \<Rightarrow> bool" where
  "is_downstream_step e =
     (case e of
        WaitVisible l t \<Rightarrow> l \<in> {ServerLink, ConsoleMenu, RestartButton, CommandInput}
      | Click l t \<Rightarrow> l \<in> {ServerLink, ConsoleMenu, RestartButton}
      | Fill l x \<Rightarrow> l = CommandInput
      | Press l k \<Rightarrow> True
      | Sleep t \<Rightarrow> True
      | WaitIdle t \<Rightarrow> t = 10000
      | Screenshot p \<Rightarrow> p \<in> {screenshot ''04-server-page'', screenshot ''05-command-executed''}
      | Notify n \<Rightarrow> ok n
      | _ \<Rightarrow> False)"

text \<open>What the \<open>catch\<close> and the \<open>finally\<close> of \<open>main\<close> can add to the trace.\<close>

definition is_wrapup :: "event \<Rightarrow> bool" where
  "is_wrapup e =
     (case e of
        Screenshot p \<Rightarrow> p = screenshot ''99-error''
      | Notify n \<Rightarrow> \<not> ok n \<and> stage n = StageException
      | CloseContext \<Rightarrow> True
      | CloseBrowser \<Rightarrow> True
      | _ \<Rightarrow> is_delivery e)"

definition is_fill :: "event \<Rightarrow> bool" where
  "is_fill e = (case e of Fill l x \<Rightarrow> True | _ \<Rightarrow> False)"

definition is_close :: "event \<Rightarrow> bool" where
  "is_close e = (case e of CloseContext \<Rightarrow> True | CloseBrowser \<Rightarrow> True | _ \<Rightarrow> False)"

text \<open>The notice of the \<open>catch\<close> of \<open>main\<close>, with or without the error screenshot.\<close>

definition exception_notice :: "exn \<Rightarrow> bool \<Rightarrow> notice" where
  "exception_notice e present =
     \<lparr>ok = False, stage = StageException, msg = MsgOfExn e,
      screenshotPath = (if present then Some (screenshot ''99-error'') else None)\<rparr>"

text \<open>
  What the \<open>catch\<close> adds to the trace of \<open>main\<close> when the body threw \<open>e\<close> with
  the files \<open>F\<close> on disk: the error screenshot is tried, and the notice carries its
  path if the file is there afterwards (written now, or left by an earlier run).
\<close>

definition handling :: "world \<Rightarrow> exn option \<Rightarrow> string set \<Rightarrow> event list" where
  "handling w r F =
     (case r of
        None \<Rightarrow> []
      | Some e \<Rightarrow>
          [Screenshot (screenshot ''99-error''),
           Notify (exception_notice e
             (fault w (Screenshot (screenshot ''99-error'')) = None \<or> screenshot ''99-error'' \<in> F))])"

subsection \<open>Runs that differ only in what the chat service does\<close>

text \<open>
  Two states that \<open>main\<close> cannot tell apart: the same calls of \<open>main\<close> so far, the
  same exit code, the same files. Two worlds with the same panel: they differ at most in
  the chat configuration and in what the notifier's calls answer.
\<close>

definition same_runner :: "state \<Rightarrow> state \<Rightarrow> bool" where
  "same_runner s t =
     (runner_view (trace s) = runner_view (trace t) \<and> exitCode s = exitCode t \<and>
      files s = files t)"

definition same_panel :: "world \<Rightarrow> world \<Rightarrow> bool" where
  "same_panel w w' =
     (env w ''LUNES_USERNAME'' = env w' ''LUNES_USERNAME'' \<and>
      env w ''LUNES_PASSWORD'' = env w' ''LUNES_PASSWORD'' \<and>
      disk w = disk w' \<and> fault w = fault w' \<and>
      challengeCount w = challengeCount w' \<and> pageUrl w = pageUrl w' \<and>
      successCount w = successCount w' \<and> errorCount w = errorCount w' \<and>
      errorText w = errorText w')"

definition sim :: "step \<Rightarrow> step \<Rightarrow> bool" where
  "sim f g =
     (\<forall>s t. same_runner s t \<longrightarrow>
        fst (f s) = fst (g t) \<and> same_runner (snd (f s)) (snd (g t)))"


subsection \<open>Sample worlds\<close>

text \<open>
  A run where everything works: both credentials and the chat are configured, no
  challenge, the submission leaves the login page, and no call throws.
\<close>

definition happy :: world where
  "happy =
     \<lparr>env = [''LUNES_USERNAME'' \<mapsto> ''u'', ''LUNES_PASSWORD'' \<mapsto> ''p'',
             ''TELEGRAM_BOT_TOKEN'' \<mapsto> ''t'', ''TELEGRAM_CHAT_ID'' \<mapsto> ''c''],
      disk = {},
      fault = (\<lambda>e. None),
      deliveryFault = (\<lambda>e. None),
      challengeCount = 0,
      pageUrl = ''https://ctrl.lunes.host/'',
      successCount = 0,
      errorCount = 0,
      errorText = []\<rparr>"

text \<open>The URL stays on the login path, and the page shows a logged-in marker.\<close>

definition marker_only :: world where
  "marker_only = happy\<lparr>pageUrl := ''https://ctrl.lunes.host/auth/login'', successCount := 1\<rparr>"

text \<open>The panel rejects the login: still on the login page, no marker, an error text.\<close>

definition rejected :: world where
  "rejected =
     happy\<lparr>pageUrl := ''https://ctrl.lunes.host/auth/login'', errorCount := 1,
       errorText := ''Invalid credentials''\<rparr>"


text \<open>The password is not set.\<close>

definition no_password :: world where
  "no_password = happy\<lparr>env := [''LUNES_USERNAME'' \<mapsto> ''u'']\<rparr>"

text \<open>The login succeeds, and the server link never becomes visible.\<close>

definition server_missing :: world where
  "server_missing =
     happy\<lparr>fault := (\<lambda>e. if e = WaitVisible ServerLink 20000 then Some ''Timeout'' else None)\<rparr>"

text \<open>The browser starts, and creating the context throws.\<close>

definition context_lost :: world where
  "context_lost =
     happy\<lparr>fault := (\<lambda>e. if e = NewContext then Some ''browser has been closed'' else None)\<rparr>"

text \<open>The chat service cannot be reached: every call of the notifier throws.\<close>

definition offline :: world where
  "offline = happy\<lparr>deliveryFault := (\<lambda>e. Some ''fetch failed'')\<rparr>"

text \<open>The chat token is not set.\<close>

definition muted :: world where
  "muted =
     happy\<lparr>env := [''LUNES_USERNAME'' \<mapsto> ''u'', ''LUNES_PASSWORD'' \<mapsto> ''p'',
       ''TELEGRAM_CHAT_ID'' \<mapsto> ''c'']\<rparr>"

text \<open>A notice with a screenshot, and states where that file exists and where it does not.\<close>

definition server_notice :: notice where
  "server_notice =
     \<lparr>ok = True, stage = StageServerPage, msg = MsgServerOpened,
      screenshotPath = Some (screenshot ''04-server-page'')\<rparr>"

definition with_file :: state where
  "with_file = \<lparr>trace = [], exitCode = None, files = {screenshot ''04-server-page''}\<rparr>"

definition without_file :: state where
  "without_file = \<lparr>trace = [], exitCode = None, files = {}\<rparr>"

text \<open>Everything works until the context is closed: \<^verbatim>\<open>context.close()\<close> throws.\<close>

definition close_fails :: world where
  "close_fails =
     happy\<lparr>fault := (\<lambda>e. if e = CloseContext then Some ''Target closed'' else None)\<rparr>"




section \<open>Running the blocks\<close>

declare steps.simps [simp del]

lemma steps_Nil: "steps [] s = (None, s)"
  by (simp add: steps.simps)

lemma steps_single: "steps [f] s = f s"
  by (simp add: steps.simps split: prod.splits option.splits)

lemma steps_call:
  "steps (call w e # fs) s =
     (case fault w e of Some m \<Rightarrow> (Some (Thrown m), emit e s) | None \<Rightarrow> steps fs (emit e s))"
  by (simp add: steps.simps call_def split: option.splits)

lemma steps_shot:
  "steps (page_screenshot w p # fs) s =
     (case fault w (Screenshot p) of
        Some m \<Rightarrow> (Some (Thrown m), emit (Screenshot p) s)
      | None \<Rightarrow> steps fs ((emit (Screenshot p) s)\<lparr>files := insert p (files s)\<rparr>))"
  by (simp add: steps.simps page_screenshot_def split: option.splits)

lemma steps_setExit: "steps (setExitCode c # fs) s = steps fs (s\<lparr>exitCode := Some c\<rparr>)"
  by (simp add: steps.simps setExitCode_def)

lemma steps_swallow: "steps (swallow f # fs) s = steps fs (snd (f s))"
  by (simp add: steps.simps swallow_def)

lemma steps_if:
  "steps ((if c then f else g) # fs) s = (if c then steps (f # fs) s else steps (g # fs) s)"
  by simp

lemma steps_append:
  "steps (fs @ gs) s =
     (case steps fs s of (None, s') \<Rightarrow> steps gs s' | (Some e, s') \<Rightarrow> (Some e, s'))"
  by (induction fs arbitrary: s) (auto simp add: steps.simps split: prod.splits option.splits)

lemma steps_nested: "steps (steps fs # gs) s = steps (fs @ gs) s"
  by (simp add: steps_append) (simp add: steps.simps split: prod.splits option.splits)

text \<open>\<open>occurs\<close> is containment as a contiguous piece.\<close>

lemma occurs_sublist: "occurs p s = sublist p s"
  by (induction s) (simp_all add: sublist_Cons_right)

subsection \<open>The notifier\<close>

lemma notifier_events_eq:
  "notifier_events w n F =
     Notify n #
     (if falsy (env w ''TELEGRAM_BOT_TOKEN'') \<or> falsy (env w ''TELEGRAM_CHAT_ID'')
      then [LogWarn WarnNotConfigured]
      else SendMessage (ok n) (stage n) (msg n) #
        (case deliveryFault w (SendMessage (ok n) (stage n) (msg n)) of
           Some m \<Rightarrow> [LogWarn (WarnDeliveryFailed (Thrown m))]
         | None \<Rightarrow>
            (case screenshotPath n of
               None \<Rightarrow> []
             | Some p \<Rightarrow>
                 if p \<noteq> [] \<and> p \<in> F
                 then ReadFile p #
                   (case deliveryFault w (ReadFile p) of
                      Some m \<Rightarrow> [LogWarn (WarnDeliveryFailed (Thrown m))]
                    | None \<Rightarrow>
                        SendPhoto (stage n) p #
                        (case deliveryFault w (SendPhoto (stage n) p) of
                           Some m \<Rightarrow> [LogWarn (WarnDeliveryFailed (Thrown m))]
                         | None \<Rightarrow> []))
                 else [])))"
  by (simp add: notifier_events_def notifyTelegram_def notify_body_def sendPhoto_def
      steps.simps deliver_def emit_def split: option.splits)

lemma notify_fst: "fst (notifyTelegram w n s) = None"
  by (simp add: notifyTelegram_def split: prod.splits option.splits)

lemma notify_snd:
  "snd (notifyTelegram w n s) = s\<lparr>trace := trace s @ notifier_events w n (files s)\<rparr>"
  by (simp add: notifier_events_def notifyTelegram_def notify_body_def sendPhoto_def
      steps.simps deliver_def emit_def split: option.splits)

lemma notify_eq:
  "notifyTelegram w n s = (None, s\<lparr>trace := trace s @ notifier_events w n (files s)\<rparr>)"
  using notify_fst [of w n s] notify_snd [of w n s] by (cases "notifyTelegram w n s") simp

lemma steps_notify:
  "steps (notifyTelegram w n # fs) s =
     steps fs (s\<lparr>trace := trace s @ notifier_events w n (files s)\<rparr>)"
  by (simp add: steps.simps notify_eq)

lemma notifier_events_view: "runner_view (notifier_events w n F) = [Notify n]"
  by (simp add: notifier_events_eq runner_view_def is_delivery_def split: option.splits)

lemma notifier_events_all:
  "allowed (Notify n) \<Longrightarrow> (\<And>e. is_delivery e \<Longrightarrow> allowed e) \<Longrightarrow>
   list_all allowed (notifier_events w n F)"
  by (simp add: notifier_events_eq is_delivery_def split: option.splits)

lemma runner_view_append: "runner_view (xs @ ys) = runner_view xs @ runner_view ys"
  by (simp add: runner_view_def)

lemma runner_view_Nil: "runner_view [] = []"
  by (simp add: runner_view_def)

lemma runner_view_Cons:
  "runner_view (e # es) = (if is_delivery e then runner_view es else e # runner_view es)"
  by (simp add: runner_view_def)

lemmas run_simps =
  steps_Nil steps_call steps_shot steps_setExit steps_swallow steps_if steps_nested
  steps_notify emit_def call_def page_screenshot_def
  runner_view_append runner_view_Nil runner_view_Cons notifier_events_view is_delivery_def

lemmas sequences =
  launching_def arriving_def submitting_def downstream_sequence_def closing_def

subsection \<open>Steps only append\<close>

lemma adds_only_call: "allowed e \<Longrightarrow> adds_only allowed (call w e)"
  by (simp add: adds_only_def call_def emit_def)

lemma adds_only_shot: "allowed (Screenshot p) \<Longrightarrow> adds_only allowed (page_screenshot w p)"
  by (simp add: adds_only_def page_screenshot_def emit_def split: option.splits)

lemma adds_only_setExit: "adds_only allowed (setExitCode c)"
  by (simp add: adds_only_def setExitCode_def)

lemma adds_only_swallow: "adds_only allowed f \<Longrightarrow> adds_only allowed (swallow f)"
  by (simp add: adds_only_def swallow_def)

lemma adds_only_notify:
  "allowed (Notify n) \<Longrightarrow> (\<And>e. is_delivery e \<Longrightarrow> allowed e) \<Longrightarrow>
   adds_only allowed (notifyTelegram w n)"
  by (auto simp add: adds_only_def notify_eq intro!: notifier_events_all)

lemma adds_only_steps: "list_all (adds_only allowed) fs \<Longrightarrow> adds_only allowed (steps fs)"
proof (induction fs)
  case Nil
  show ?case by (simp add: adds_only_def steps_Nil)
next
  case (Cons f fs)
  then have f: "adds_only allowed f" and fs: "adds_only allowed (steps fs)"
    by simp_all
  show ?case
    unfolding adds_only_def
  proof
    fix s
    obtain xs where xs: "trace (snd (f s)) = trace s @ xs" "list_all allowed xs"
      using f unfolding adds_only_def by blast
    obtain ys where ys: "trace (snd (steps fs (snd (f s)))) = trace (snd (f s)) @ ys"
      "list_all allowed ys"
      using fs unfolding adds_only_def by blast
    show "\<exists>zs. trace (snd (steps (f # fs) s)) = trace s @ zs \<and> list_all allowed zs"
    proof (cases "fst (f s)")
      case None
      then have "steps (f # fs) s = steps fs (snd (f s))"
        by (cases "f s") (simp add: steps.simps)
      with xs ys show ?thesis by simp
    next
      case (Some e)
      then have "steps (f # fs) s = (Some e, snd (f s))"
        by (cases "f s") (simp add: steps.simps)
      with xs show ?thesis by simp
    qed
  qed
qed

lemma adds_only_try:
  assumes "adds_only allowed b" "\<And>e. adds_only allowed (h e)" "adds_only allowed f"
  shows "adds_only allowed (try_catch_finally b h f)"
  unfolding adds_only_def
proof
  fix s
  obtain xs where xs: "trace (snd (b s)) = trace s @ xs" "list_all allowed xs"
    using assms(1) unfolding adds_only_def by blast
  show "\<exists>zs. trace (snd (try_catch_finally b h f s)) = trace s @ zs \<and> list_all allowed zs"
  proof (cases "fst (b s)")
    case None
    obtain ys where ys: "trace (snd (f (snd (b s)))) = trace (snd (b s)) @ ys"
      "list_all allowed ys"
      using assms(3) unfolding adds_only_def by blast
    from None have "try_catch_finally b h f s = f (snd (b s))"
      by (cases "b s") (simp add: try_catch_finally_def)
    with xs ys show ?thesis by simp
  next
    case (Some e)
    obtain ys where ys: "trace (snd (h e (snd (b s)))) = trace (snd (b s)) @ ys"
      "list_all allowed ys"
      using assms(2) unfolding adds_only_def by blast
    obtain zs where zs:
      "trace (snd (f (snd (h e (snd (b s)))))) = trace (snd (h e (snd (b s)))) @ zs"
      "list_all allowed zs"
      using assms(3) unfolding adds_only_def by blast
    from Some have "snd (try_catch_finally b h f s) = snd (f (snd (h e (snd (b s)))))"
      by (cases "b s"; cases "h e (snd (b s))"; cases "f (snd (h e (snd (b s))))")
        (auto simp add: try_catch_finally_def split: option.splits)
    with xs ys zs show ?thesis by simp
  qed
qed

lemma adds_only_mono:
  "adds_only allowed f \<Longrightarrow> (\<And>e. allowed e \<Longrightarrow> allowed' e) \<Longrightarrow> adds_only allowed' f"
  unfolding adds_only_def by (metis list.pred_mono_strong)

lemma adds_only_release: "adds_only is_wrapup (release w)"
  by (simp add: release_def adds_only_steps adds_only_call is_wrapup_def)

lemma adds_only_notifyException: "adds_only is_wrapup (notifyException w e)"
  by (auto simp add: adds_only_def notifyException_def notify_eq is_wrapup_def is_delivery_def
      split: event.splits intro!: notifier_events_all)

lemma adds_only_onException: "adds_only is_wrapup (onException w e)"
  by (simp add: onException_def adds_only_steps adds_only_swallow adds_only_shot
      adds_only_notifyException adds_only_setExit is_wrapup_def)


subsection \<open>The run, block by block\<close>

lemma main_credentials:
  "credentials w \<Longrightarrow>
   main w =
     steps
       [call w Launch, call w NewContext, call w NewPage,
        try_catch_finally (workflow w (usernameOf w) (passwordOf w)) (onException w) (release w)]
       (initial w)"
  by (auto simp add: credentials_def main_def envOrThrow_def usernameOf_def passwordOf_def
      split: option.splits)

lemma main_no_credentials:
  "\<not> credentials w \<Longrightarrow>
   main w =
     (Some (EnvNotSet (if falsy (env w ''LUNES_USERNAME'') then ''LUNES_USERNAME''
                       else ''LUNES_PASSWORD'')),
      initial w)"
  by (auto simp add: credentials_def main_def envOrThrow_def split: option.splits)

lemma try_cong:
  "b s = b' s' \<Longrightarrow> try_catch_finally b h f s = try_catch_finally b' h f s'"
  by (simp add: try_catch_finally_def)

lemma main_launched:
  "credentials w \<Longrightarrow> returns w launching \<Longrightarrow>
   main w =
     try_catch_finally (workflow w (usernameOf w) (passwordOf w)) (onException w) (release w)
       \<lparr>trace = launching, exitCode = None, files = disk w\<rparr>"
  by (simp add: main_credentials returns_def throws_def launching_def initial_def
      steps_call steps_single emit_def)

lemma workflow_success:
  "challengeCount w = 0 \<Longrightarrow> loginSucceeded w \<Longrightarrow>
   returns w (arriving @ remove1 (WaitIdle 30000) (submitting w)) \<Longrightarrow>
   workflow w (usernameOf w) (passwordOf w) \<lparr>trace = launching, exitCode = None, files = disk w\<rparr>
     = downstream w (verdict_state w)"
  by (simp add: workflow_def submit_def returns_def throws_def sequences verdict_state_def
      steps_Nil steps_call steps_shot steps_swallow steps_if steps_nested steps_single
      emit_def call_def)

lemma workflow_failure:
  "challengeCount w = 0 \<Longrightarrow> \<not> loginSucceeded w \<Longrightarrow>
   returns w (arriving @ remove1 (WaitIdle 30000) (submitting w)) \<Longrightarrow>
   workflow w (usernameOf w) (passwordOf w) \<lparr>trace = launching, exitCode = None, files = disk w\<rparr>
     = loginFailed w (verdict_state w)"
  by (simp add: workflow_def submit_def returns_def throws_def sequences verdict_state_def
      steps_Nil steps_call steps_shot steps_swallow steps_if steps_nested steps_single
      emit_def call_def)

lemma main_success:
  assumes "reaches_verdict w" "loginSucceeded w"
  shows "main w =
    try_catch_finally (downstream w) (onException w) (release w) (verdict_state w)"
proof -
  from assms(1) have c: "credentials w" and z: "challengeCount w = 0"
    and l: "returns w launching"
    and r: "returns w (arriving @ remove1 (WaitIdle 30000) (submitting w))"
    by (simp_all add: reaches_verdict_def returns_def)
  show ?thesis
    unfolding main_launched [OF c l]
    by (rule try_cong) (rule workflow_success [OF z assms(2) r])
qed

lemma main_failure:
  assumes "reaches_verdict w" "\<not> loginSucceeded w"
  shows "main w =
    try_catch_finally (loginFailed w) (onException w) (release w) (verdict_state w)"
proof -
  from assms(1) have c: "credentials w" and z: "challengeCount w = 0"
    and l: "returns w launching"
    and r: "returns w (arriving @ remove1 (WaitIdle 30000) (submitting w))"
    by (simp_all add: reaches_verdict_def returns_def)
  show ?thesis
    unfolding main_launched [OF c l]
    by (rule try_cong) (rule workflow_failure [OF z assms(2) r])
qed

lemma downstream_fst: "(fst (downstream w s) = None) = returns w (downstream_sequence w)"
  by (simp add: downstream_def downstream_sequence_def returns_def throws_def
      steps_Nil steps_call steps_shot steps_setExit steps_notify split: option.splits)

lemma downstream_view:
  "runner_view (trace (snd (downstream w s))) =
     runner_view (trace s) @ attempted w (downstream_sequence w)"
  by (simp add: downstream_def downstream_sequence_def throws_def run_simps split: option.splits)

lemma downstream_exit:
  "exitCode (snd (downstream w s)) =
     (if returns w (downstream_sequence w) then Some 0 else exitCode s)"
  by (simp add: downstream_def downstream_sequence_def returns_def throws_def
      steps_Nil steps_call steps_shot steps_setExit steps_notify emit_def split: option.splits)


lemma try_after_body:
  assumes "\<And>e. adds_only allowed (h e)" "adds_only allowed f"
  shows "\<exists>xs. trace (snd (try_catch_finally b h f s)) = trace (snd (b s)) @ xs \<and>
              list_all allowed xs"
proof (cases "fst (b s)")
  case None
  obtain ys where ys: "trace (snd (f (snd (b s)))) = trace (snd (b s)) @ ys"
    "list_all allowed ys"
    using assms(2) unfolding adds_only_def by blast
  from None have "try_catch_finally b h f s = f (snd (b s))"
    by (cases "b s") (simp add: try_catch_finally_def)
  with ys show ?thesis by simp
next
  case (Some e)
  obtain ys where ys: "trace (snd (h e (snd (b s)))) = trace (snd (b s)) @ ys"
    "list_all allowed ys"
    using assms(1) unfolding adds_only_def by blast
  obtain zs where zs:
    "trace (snd (f (snd (h e (snd (b s)))))) = trace (snd (h e (snd (b s)))) @ zs"
    "list_all allowed zs"
    using assms(2) unfolding adds_only_def by blast
  from Some have "snd (try_catch_finally b h f s) = snd (f (snd (h e (snd (b s)))))"
    by (cases "b s"; cases "h e (snd (b s))"; cases "f (snd (h e (snd (b s))))")
      (auto simp add: try_catch_finally_def split: option.splits)
  with ys zs show ?thesis by simp
qed

lemma wrapup_after_body:
  "\<exists>xs. trace (snd (try_catch_finally b (onException w) (release w) s)) = trace (snd (b s)) @ xs
        \<and> list_all is_wrapup xs"
  by (rule try_after_body) (rule adds_only_onException, rule adds_only_release)

lemma release_exit: "exitCode (snd (release w s)) = exitCode s"
  by (simp add: release_def steps_call steps_Nil emit_def split: option.splits)

lemma notifyException_eq:
  "\<exists>xs. notifyException w e s = (None, s\<lparr>trace := trace s @ xs\<rparr>)"
  unfolding notifyException_def notify_eq by blast

lemma steps_Cons:
  "steps (f # fs) s =
     (case fst (f s) of None \<Rightarrow> steps fs (snd (f s)) | Some e \<Rightarrow> (Some e, snd (f s)))"
  by (cases "f s") (simp add: steps.simps split: option.splits)

lemma onException_result:
  "fst (onException w e s) = None \<and> exitCode (snd (onException w e s)) = Some 1"
proof -
  obtain s1 where s1: "snd (page_screenshot w (screenshot ''99-error'') s) = s1"
    by simp
  obtain xs where xs: "notifyException w e s1 = (None, s1\<lparr>trace := trace s1 @ xs\<rparr>)"
    using notifyException_eq by blast
  have "onException w e s = (None, s1\<lparr>trace := trace s1 @ xs, exitCode := Some 1\<rparr>)"
    by (simp add: onException_def steps_swallow s1 steps_Cons [of "notifyException w e"] xs
        steps_setExit steps_Nil)
  then show ?thesis by simp
qed

lemma try_exit:
  "exitCode (snd (try_catch_finally b (onException w) (release w) s)) =
     (if fst (b s) = None then exitCode (snd (b s)) else Some 1)"
proof (cases "b s")
  case (Pair r s1)
  show ?thesis
  proof (cases r)
    case None
    with Pair show ?thesis by (simp add: try_catch_finally_def release_exit)
  next
    case (Some e)
    obtain s2 where h: "onException w e s1 = (None, s2)" and x: "exitCode s2 = Some 1"
      using onException_result [of w e s1] by (cases "onException w e s1") simp
    from Pair Some h have "try_catch_finally b (onException w) (release w) s = release w s2"
      by (simp add: try_catch_finally_def)
    with Pair Some x show ?thesis by (simp add: release_exit)
  qed
qed

lemma attempted_prefix: "prefix (attempted w es) es"
  by (induction es) (simp_all split: option.splits)

lemma attempted_all: "returns w es \<Longrightarrow> attempted w es = es"
  by (induction es) (simp_all add: returns_def)

lemma runner_view_all: "list_all allowed xs \<Longrightarrow> list_all allowed (runner_view xs)"
  by (simp add: runner_view_def list_all_iff)

lemma success_shape:
  assumes "reaches_verdict w" "loginSucceeded w"
  shows "\<exists>xs. runner_view (trace (snd (main w))) =
           launching @ arriving @ submitting w @ attempted w (downstream_sequence w) @ xs \<and>
           list_all is_wrapup xs"
proof -
  obtain xs where xs:
    "trace (snd (main w)) = trace (snd (downstream w (verdict_state w))) @ xs"
    "list_all is_wrapup xs"
    unfolding main_success [OF assms] using wrapup_after_body by blast
  have v: "runner_view (trace (verdict_state w)) = launching @ arriving @ submitting w"
    by (simp add: verdict_state_def sequences runner_view_Cons runner_view_Nil is_delivery_def)
  have "runner_view (trace (snd (main w))) =
      launching @ arriving @ submitting w @ attempted w (downstream_sequence w) @ runner_view xs"
    by (simp add: xs(1) runner_view_append downstream_view v)
  with runner_view_all [OF xs(2)] show ?thesis by blast
qed

lemma success_exit:
  assumes "reaches_verdict w" "loginSucceeded w"
  shows "exitCode (snd (main w)) = (if returns w (downstream_sequence w) then Some 0 else Some 1)"
  unfolding main_success [OF assms] try_exit downstream_fst downstream_exit
  by simp

lemma screenshot_inj: "(screenshot a = screenshot b) = (a = b)"
  by (simp add: screenshot_def)

lemma delivery_not_downstream: "is_delivery e \<Longrightarrow> \<not> is_downstream_step e"
  by (cases e) (simp_all add: is_delivery_def is_downstream_step_def)

lemma wrapup_not_downstream: "is_wrapup e \<Longrightarrow> \<not> is_downstream_step e"
  by (cases e) (simp_all add: is_wrapup_def is_delivery_def is_downstream_step_def screenshot_inj)

lemmas adds_only_intros =
  adds_only_steps adds_only_call adds_only_shot adds_only_notify adds_only_setExit
  adds_only_swallow adds_only_try

lemma workflow_without_success:
  "\<not> loginSucceeded w \<Longrightarrow> adds_only (\<lambda>e. \<not> is_downstream_step e) (workflow w u p)"
  by (auto simp add: workflow_def blocked_def submit_def loginFailed_def is_downstream_step_def
      screenshot_inj is_delivery_def split: event.splits intro!: adds_only_intros)


lemma returns_quiet: "fault w = (\<lambda>e. None) \<Longrightarrow> returns w es"
  by (simp add: returns_def throws_def split: event.splits)

lemma returns_append: "returns w (xs @ ys) = (returns w xs \<and> returns w ys)"
  by (auto simp add: returns_def)

lemma main_adds_only:
  assumes b: "adds_only allowed (workflow w (usernameOf w) (passwordOf w))"
    and l: "allowed Launch" "allowed NewContext" "allowed NewPage"
    and u: "\<And>e. is_wrapup e \<Longrightarrow> allowed e"
  shows "list_all allowed (trace (snd (main w)))"
proof (cases "credentials w")
  case False
  then show ?thesis by (simp add: main_no_credentials initial_def)
next
  case True
  have h: "adds_only allowed (onException w e)" for e
    by (rule adds_only_mono [OF adds_only_onException]) (rule u)
  have r: "adds_only allowed (release w)"
    by (rule adds_only_mono [OF adds_only_release]) (rule u)
  have t: "adds_only allowed
      (try_catch_finally (workflow w (usernameOf w) (passwordOf w)) (onException w) (release w))"
    by (rule adds_only_try) (rule b, rule h, rule r)
  have "adds_only allowed
     (steps [call w Launch, call w NewContext, call w NewPage,
        try_catch_finally (workflow w (usernameOf w) (passwordOf w)) (onException w) (release w)])"
    by (rule adds_only_steps) (simp add: l t adds_only_call)
  then show ?thesis
    unfolding main_credentials [OF True] adds_only_def
    by (metis append_Nil initial_def state.select_convs(1))
qed

lemma screenshots_view: "screenshots (runner_view es) = screenshots es"
  by (induction es) (auto simp add: screenshots_def runner_view_def is_delivery_def split: event.splits)

lemma notices_view: "notices (runner_view es) = notices es"
  by (induction es) (auto simp add: notices_def runner_view_def is_delivery_def split: event.splits)

lemma attempted_starts:
  "\<exists>ys. attempted w (downstream_sequence w) =
     Notify \<lparr>ok = True, stage = StageLoginOk, msg = MsgCurrentUrl (pageUrl w),
       screenshotPath = Some (screenshot ''03-after-submit'')\<rparr>
     # WaitVisible ServerLink 20000 # ys"
  by (simp add: downstream_sequence_def throws_def)

lemma no_downstream_without_success:
  assumes "\<not> loginSucceeded w"
  shows "list_all (\<lambda>e. \<not> is_downstream_step e) (trace (snd (main w)))"
proof (rule main_adds_only)
  show "adds_only (\<lambda>e. \<not> is_downstream_step e) (workflow w (usernameOf w) (passwordOf w))"
    by (rule workflow_without_success [OF assms])
  show "\<not> is_downstream_step Launch" "\<not> is_downstream_step NewContext"
    "\<not> is_downstream_step NewPage"
    by (simp_all add: is_downstream_step_def)
  show "\<not> is_downstream_step e" if "is_wrapup e" for e
    using that by (rule wrapup_not_downstream)
qed


subsection \<open>The shape of a run that enters the try\<close>

lemma release_view:
  "runner_view (trace (snd (release w s))) = runner_view (trace s) @ attempted w closing"
  by (simp add: release_def closing_def throws_def run_simps split: option.splits)

lemma release_files: "files (snd (release w s)) = files s"
  by (simp add: release_def steps_call steps_Nil emit_def split: option.splits)

lemma steps_notifyException:
  "steps (notifyException w e # fs) s =
     steps fs (s\<lparr>trace := trace s @
       notifier_events w (exception_notice e (screenshot ''99-error'' \<in> files s)) (files s)\<rparr>)"
  by (simp add: steps_Cons [of "notifyException w e"] notifyException_def notify_eq
      exception_notice_def)

lemma onException_fst: "fst (onException w e s) = None"
  by (simp add: onException_result)

lemma onException_view:
  "runner_view (trace (snd (onException w e s))) =
     runner_view (trace s) @ handling w (Some e) (files s)"
  by (simp add: onException_def handling_def steps_swallow steps_notifyException steps_setExit
      steps_Nil page_screenshot_def emit_def runner_view_append runner_view_Cons runner_view_Nil
      notifier_events_view is_delivery_def split: option.splits)

lemma try_none:
  "fst (b s) = None \<Longrightarrow> try_catch_finally b h f s = f (snd (b s))"
  by (cases "b s") (simp add: try_catch_finally_def)

lemma try_some:
  "fst (b s) = Some e \<Longrightarrow> fst (h e (snd (b s))) = None \<Longrightarrow>
   try_catch_finally b h f s = f (snd (h e (snd (b s))))"
  by (cases "b s"; cases "h e (snd (b s))") (simp add: try_catch_finally_def)

lemma try_view:
  "runner_view (trace (snd (try_catch_finally b (onException w) (release w) s))) =
     runner_view (trace (snd (b s))) @ handling w (fst (b s)) (files (snd (b s)))
       @ attempted w closing"
proof (cases "fst (b s)")
  case None
  then show ?thesis
    by (simp add: try_none release_view handling_def)
next
  case (Some e)
  then show ?thesis
    by (simp add: try_some onException_fst release_view onException_view)
qed

lemma try_fst:
  "fst (try_catch_finally b (onException w) (release w) s) =
     (case fault w CloseContext of
        Some m \<Rightarrow> Some (Thrown m)
      | None \<Rightarrow> map_option Thrown (fault w CloseBrowser))"
proof -
  have r: "fst (release w t) =
     (case fault w CloseContext of
        Some m \<Rightarrow> Some (Thrown m)
      | None \<Rightarrow> map_option Thrown (fault w CloseBrowser))" for t
    by (simp add: release_def steps_call steps_Nil split: option.splits)
  show ?thesis
  proof (cases "fst (b s)")
    case None
    then show ?thesis by (simp add: try_none r)
  next
    case (Some e)
    then show ?thesis by (simp add: try_some onException_fst r)
  qed
qed

lemma notices_simps:
  "notices [] = []"
  "notices (xs @ ys) = notices xs @ notices ys"
  "notices (e # es) = (case e of Notify n \<Rightarrow> [n] | _ \<Rightarrow> []) @ notices es"
  by (simp_all add: notices_def)

lemma screenshots_simps:
  "screenshots [] = []"
  "screenshots (xs @ ys) = screenshots xs @ screenshots ys"
  "screenshots (e # es) = (case e of Screenshot p \<Rightarrow> [p] | _ \<Rightarrow> []) @ screenshots es"
  by (simp_all add: screenshots_def)

lemma notices_closing: "notices (attempted w closing) = []"
  by (simp add: closing_def notices_simps split: option.splits)

lemma screenshots_closing: "screenshots (attempted w closing) = []"
  by (simp add: closing_def screenshots_simps split: option.splits)

lemma loginFailed_run:
  "loginFailed w s =
     (case fault w (Count ErrorText) of
        Some m \<Rightarrow> (Some (Thrown m), emit (Count ErrorText) s)
      | None \<Rightarrow>
          (None,
           s\<lparr>trace := trace s @ Count ErrorText #
                (if 0 < errorCount w then [InnerText ErrorText] else []) @
                notifier_events w
                  \<lparr>ok = False, stage = StageLoginFailed,
                   msg = (if errorMsg w \<noteq> [] then MsgSuspected (errorMsg w) else MsgStillOnLogin),
                   screenshotPath = Some (screenshot ''03-after-submit'')\<rparr> (files s),
             exitCode := Some 1\<rparr>))"
  by (simp add: loginFailed_def steps_call steps_if steps_swallow steps_nested steps_notify
      steps_setExit steps_Nil call_def emit_def split: option.splits)



lemma delivery_not_fill: "is_delivery e \<Longrightarrow> \<not> is_fill e"
  by (cases e) (simp_all add: is_delivery_def is_fill_def)





subsection \<open>The notifier does not steer the run\<close>

lemma sim_call: "fault w = fault w' \<Longrightarrow> sim (call w e) (call w' e)"
  by (simp add: sim_def same_runner_def call_def emit_def runner_view_def)

lemma sim_shot: "fault w = fault w' \<Longrightarrow> sim (page_screenshot w p) (page_screenshot w' p)"
  by (simp add: sim_def same_runner_def page_screenshot_def emit_def runner_view_def
      split: option.splits)

lemma sim_setExit: "sim (setExitCode c) (setExitCode c)"
  by (simp add: sim_def same_runner_def setExitCode_def)

lemma sim_swallow: "sim f g \<Longrightarrow> sim (swallow f) (swallow g)"
  by (simp add: sim_def swallow_def)

lemma sim_notify: "sim (notifyTelegram w n) (notifyTelegram w' n)"
  by (simp add: sim_def same_runner_def notify_eq runner_view_append notifier_events_view)

lemma sim_notifyException: "sim (notifyException w e) (notifyException w' e)"
  by (simp add: sim_def same_runner_def notifyException_def notify_eq runner_view_append
      notifier_events_view)

lemma sim_steps: "list_all2 sim fs gs \<Longrightarrow> sim (steps fs) (steps gs)"
proof (induction fs gs rule: list_all2_induct)
  case Nil
  show ?case by (simp add: sim_def steps_Nil)
next
  case (Cons f fs g gs)
  show ?case
    unfolding sim_def
  proof (intro allI impI)
    fix s t
    assume r: "same_runner s t"
    from Cons.hyps(1) r have h: "fst (f s) = fst (g t)" "same_runner (snd (f s)) (snd (g t))"
      by (simp_all add: sim_def)
    from Cons.IH h(2)
    have i: "fst (steps fs (snd (f s))) = fst (steps gs (snd (g t)))"
      "same_runner (snd (steps fs (snd (f s)))) (snd (steps gs (snd (g t))))"
      by (simp_all add: sim_def)
    show "fst (steps (f # fs) s) = fst (steps (g # gs) t) \<and>
        same_runner (snd (steps (f # fs) s)) (snd (steps (g # gs) t))"
      using h i by (simp add: steps_Cons split: option.splits)
  qed
qed

lemma simD:
  "sim f g \<Longrightarrow> same_runner s t \<Longrightarrow>
   fst (f s) = fst (g t) \<and> same_runner (snd (f s)) (snd (g t))"
  by (simp add: sim_def)

lemma sim_try:
  assumes "sim b b'" "\<And>e. sim (h e) (h' e)" "sim f f'"
  shows "sim (try_catch_finally b h f) (try_catch_finally b' h' f')"
  unfolding sim_def
proof (intro allI impI)
  fix s t
  assume r: "same_runner s t"
  obtain x s1 where bs: "b s = (x, s1)" by (cases "b s")
  obtain y t1 where bt: "b' t = (y, t1)" by (cases "b' t")
  from simD [OF assms(1) r] bs bt have xy: "x = y" and r1: "same_runner s1 t1"
    by simp_all
  show "fst (try_catch_finally b h f s) = fst (try_catch_finally b' h' f' t) \<and>
      same_runner (snd (try_catch_finally b h f s)) (snd (try_catch_finally b' h' f' t))"
  proof (cases x)
    case None
    with bs bt xy simD [OF assms(3) r1] show ?thesis
      by (simp add: try_catch_finally_def)
  next
    case (Some e)
    obtain x2 s2 where hs: "h e s1 = (x2, s2)" by (cases "h e s1")
    obtain y2 t2 where ht: "h' e t1 = (y2, t2)" by (cases "h' e t1")
    from simD [OF assms(2) r1, of e] hs ht have xy2: "x2 = y2" and r2: "same_runner s2 t2"
      by simp_all
    obtain x3 s3 where fs: "f s2 = (x3, s3)" by (cases "f s2")
    obtain y3 t3 where ft: "f' t2 = (y3, t3)" by (cases "f' t2")
    from simD [OF assms(3) r2] fs ft have xy3: "x3 = y3" and r3: "same_runner s3 t3"
      by simp_all
    from Some bs bt xy hs ht xy2 fs ft xy3 r3 show ?thesis
      by (simp add: try_catch_finally_def split: option.splits)
  qed
qed

lemmas sim_intros =
  sim_steps sim_call sim_shot sim_setExit sim_swallow sim_notify sim_notifyException

lemma sim_workflow:
  assumes "same_panel w w'"
  shows "sim (workflow w u p) (workflow w' u p)"
proof -
  from assms have f: "fault w = fault w'" and c: "challengeCount w = challengeCount w'"
    and l: "loginSucceeded w = loginSucceeded w'" and n: "errorCount w = errorCount w'"
    and q: "pageUrl w = pageUrl w'"
    by (simp_all add: same_panel_def loginSucceeded_def)
  from assms have m: "errorMsg w = errorMsg w'"
    by (simp add: same_panel_def errorMsg_def split: option.splits)
  have 1: "sim (blocked w) (blocked w')"
    unfolding blocked_def by (intro sim_steps) (simp add: f sim_intros)
  have 2: "sim (submit w u p) (submit w' u p)"
    unfolding submit_def by (intro sim_steps) (simp add: f sim_intros)
  have 3: "sim (downstream w) (downstream w')"
    unfolding downstream_def q by (intro sim_steps) (simp add: f sim_intros)
  have 4: "sim (loginFailed w) (loginFailed w')"
    unfolding loginFailed_def n m
    by (intro sim_steps) (simp add: f sim_intros)
  have 5: "sim (if loginSucceeded w then downstream w else loginFailed w)
      (if loginSucceeded w' then downstream w' else loginFailed w')"
    unfolding l using 3 4 by simp
  have 6: "sim (steps [submit w u p, if loginSucceeded w then downstream w else loginFailed w])
      (steps [submit w' u p, if loginSucceeded w' then downstream w' else loginFailed w'])"
    by (intro sim_steps) (simp add: 2 5)
  show ?thesis
    unfolding workflow_def c
    by (intro sim_steps) (simp add: f sim_intros 1 6)
qed

lemma delivery_independence:
  assumes "same_panel w w'"
  shows "fst (main w) = fst (main w') \<and> same_runner (snd (main w)) (snd (main w'))"
proof -
  from assms have f: "fault w = fault w'" and d: "disk w = disk w'"
    and c: "credentials w = credentials w'" and u: "usernameOf w = usernameOf w'"
    and p: "passwordOf w = passwordOf w'"
    and e: "env w ''LUNES_USERNAME'' = env w' ''LUNES_USERNAME''"
    by (simp_all add: same_panel_def credentials_def usernameOf_def passwordOf_def)
  have i: "same_runner (initial w) (initial w')"
    by (simp add: same_runner_def initial_def d)
  show ?thesis
  proof (cases "credentials w")
    case False
    with c i e show ?thesis
      by (simp add: main_no_credentials)
  next
    case True
    have h: "sim (onException w x) (onException w' x)" for x
      unfolding onException_def by (intro sim_steps) (simp add: f sim_intros)
    have r: "sim (release w) (release w')"
      unfolding release_def by (intro sim_steps) (simp add: f sim_intros)
    have t: "sim
        (try_catch_finally (workflow w (usernameOf w) (passwordOf w)) (onException w) (release w))
        (try_catch_finally (workflow w' (usernameOf w') (passwordOf w')) (onException w')
           (release w'))"
      unfolding u p by (intro sim_try sim_workflow [OF assms] h r)
    have "sim
        (steps [call w Launch, call w NewContext, call w NewPage,
           try_catch_finally (workflow w (usernameOf w) (passwordOf w)) (onException w)
             (release w)])
        (steps [call w' Launch, call w' NewContext, call w' NewPage,
           try_catch_finally (workflow w' (usernameOf w') (passwordOf w')) (onException w')
             (release w')])"
      by (intro sim_steps) (simp add: f sim_intros t)
    with i True c show ?thesis
      by (simp add: main_credentials sim_def)
  qed
qed


section \<open>The notifier (claims C8, C9, C10)\<close>

lemma notifier_events_happy_file:
  "notifier_events happy server_notice {screenshot ''04-server-page''} =
     [Notify server_notice, SendMessage True StageServerPage MsgServerOpened,
      ReadFile (screenshot ''04-server-page''),
      SendPhoto StageServerPage (screenshot ''04-server-page'')]"
  by (simp add: notifier_events_eq happy_def server_notice_def screenshot_def)

lemma notifier_events_offline:
  "notifier_events offline server_notice {screenshot ''04-server-page''} =
     [Notify server_notice, SendMessage True StageServerPage MsgServerOpened,
      LogWarn (WarnDeliveryFailed (Thrown ''fetch failed''))]"
  by (simp add: notifier_events_eq offline_def happy_def server_notice_def)

text \<open>
  C8. Whatever the world answers to the notifier's calls (a request that throws, a
  screenshot that cannot be read), \<open>notifyTelegram\<close> returns without an exception and
  leaves \<^verbatim>\<open>process.exitCode\<close> and the files as they were: it only appends to the
  trace. And what the chat service does never reaches the runner: two runs against the
  same panel, whatever the chat configuration and the answers to the notifier's calls,
  end with the same result of \<open>main\<close>, the same exit code, the same calls of
  \<open>main\<close> in the same order, and the same files.
\<close>

theorem notifier_never_throws:
  "fst (notifyTelegram w n s) = None \<and>
   exitCode (snd (notifyTelegram w n s)) = exitCode s \<and>
   files (snd (notifyTelegram w n s)) = files s \<and>
   prefix (trace s) (trace (snd (notifyTelegram w n s))) \<and>
   (same_panel w w' \<longrightarrow>
      fst (main w) = fst (main w') \<and>
      exitCode (snd (main w)) = exitCode (snd (main w')) \<and>
      runner_view (trace (snd (main w))) = runner_view (trace (snd (main w'))) \<and>
      files (snd (main w)) = files (snd (main w')))"
  using delivery_independence [of w w']
  by (simp add: notify_eq same_runner_def)

theorem notifier_never_throws_witness:
  "deliveryFault offline (SendMessage True StageServerPage MsgServerOpened) = Some ''fetch failed'' \<and>
   fst (notifyTelegram offline server_notice with_file) = None \<and>
   exitCode (snd (notifyTelegram offline server_notice with_file)) = exitCode with_file \<and>
   trace (snd (notifyTelegram offline server_notice with_file)) =
     [Notify server_notice, SendMessage True StageServerPage MsgServerOpened,
      LogWarn (WarnDeliveryFailed (Thrown ''fetch failed''))] \<and>
   same_panel happy offline \<and>
   exitCode (snd (main offline)) = exitCode (snd (main happy)) \<and>
   fst (main offline) = fst (main happy)"
proof -
  have d: "deliveryFault offline (SendMessage True StageServerPage MsgServerOpened)
      = Some ''fetch failed''"
    by (simp add: offline_def)
  have p: "same_panel happy offline"
    by (simp add: same_panel_def offline_def)
  have t: "trace (snd (notifyTelegram offline server_notice with_file)) =
     [Notify server_notice, SendMessage True StageServerPage MsgServerOpened,
      LogWarn (WarnDeliveryFailed (Thrown ''fetch failed''))]"
    by (simp add: notify_eq with_file_def notifier_events_offline)
  show ?thesis
    using d p t notifier_never_throws [of offline server_notice with_file offline]
      notifier_never_throws [of happy server_notice with_file offline]
    by simp
qed


text \<open>
  C9. One invocation of the notifier, from any state \<open>s\<close>, appends
  \<open>notifier_events w n (files s)\<close> to the trace, and:
  \<^item> when the chat token or the channel id is unset or empty, these are the entry and one
    warning: no request is issued;
  \<^item> otherwise the text request is issued first;
  \<^item> a photo request is issued only for the path the notice carries, only if that file
    exists, and then as the second request, after the text request and the file read;
  \<^item> it is issued whenever the text request and the file read return and the notice
    carries the path of an existing file;
  \<^item> when the notice carries no path, or the file is missing, the text request is all
    that happens: no photo request and no warning.
\<close>

theorem notifier_delivery:
  "trace (snd (notifyTelegram w n s)) = trace s @ notifier_events w n (files s) \<and>
   (\<not> chat_configured w \<longrightarrow>
      notifier_events w n F = [Notify n, LogWarn WarnNotConfigured]) \<and>
   (chat_configured w \<longrightarrow>
      take 2 (notifier_events w n F) = [Notify n, SendMessage (ok n) (stage n) (msg n)]) \<and>
   (SendPhoto st p \<in> set (notifier_events w n F) \<longrightarrow>
      chat_configured w \<and> screenshotPath n = Some p \<and> p \<in> F \<and> st = stage n \<and>
      take 4 (notifier_events w n F) =
        [Notify n, SendMessage (ok n) (stage n) (msg n), ReadFile p, SendPhoto (stage n) p]) \<and>
   (chat_configured w \<and> deliveryFault w (SendMessage (ok n) (stage n) (msg n)) = None \<and>
    screenshotPath n = Some p \<and> p \<noteq> [] \<and> p \<in> F \<and> deliveryFault w (ReadFile p) = None \<longrightarrow>
      take 4 (notifier_events w n F) =
        [Notify n, SendMessage (ok n) (stage n) (msg n), ReadFile p, SendPhoto (stage n) p]) \<and>
   (chat_configured w \<and> deliveryFault w (SendMessage (ok n) (stage n) (msg n)) = None \<and>
    (case screenshotPath n of None \<Rightarrow> True | Some q \<Rightarrow> q \<notin> F) \<longrightarrow>
      notifier_events w n F = [Notify n, SendMessage (ok n) (stage n) (msg n)])"
  by (auto simp add: notify_eq notifier_events_eq chat_configured_def
      split: option.splits if_splits)

theorem notifier_delivery_witness:
  "\<not> chat_configured muted \<and>
   notifier_events muted server_notice {screenshot ''04-server-page''} =
     [Notify server_notice, LogWarn WarnNotConfigured] \<and>
   chat_configured happy \<and>
   take 4 (notifier_events happy server_notice {screenshot ''04-server-page''}) =
     [Notify server_notice, SendMessage True StageServerPage MsgServerOpened,
      ReadFile (screenshot ''04-server-page''),
      SendPhoto StageServerPage (screenshot ''04-server-page'')] \<and>
   notifier_events happy server_notice {} =
     [Notify server_notice, SendMessage True StageServerPage MsgServerOpened]"
proof -
  let ?f = "screenshot ''04-server-page''"
  let ?text = "SendMessage (ok server_notice) (stage server_notice) (msg server_notice)"
  have m: "\<not> chat_configured muted"
    by (simp add: chat_configured_def muted_def happy_def)
  have h: "chat_configured happy"
    by (simp add: chat_configured_def happy_def)
  have d: "deliveryFault happy ?text = None" "deliveryFault happy (ReadFile ?f) = None"
    by (simp_all add: happy_def)
  have p: "screenshotPath server_notice = Some ?f"
    by (simp add: server_notice_def)
  have q: "?f \<noteq> []" "?f \<in> {?f}"
    by (simp_all add: screenshot_def)
  have e: "(case screenshotPath server_notice of None \<Rightarrow> True | Some q \<Rightarrow> q \<notin> {})"
    by (simp add: p)
  have 1: "notifier_events muted server_notice {?f} = [Notify server_notice, LogWarn WarnNotConfigured]"
    using m notifier_delivery [of muted server_notice without_file "{?f}"] by blast
  have 2: "take 4 (notifier_events happy server_notice {?f}) =
      [Notify server_notice, ?text, ReadFile ?f, SendPhoto (stage server_notice) ?f]"
    using h d p q notifier_delivery [of happy server_notice without_file "{?f}" StageServerPage ?f]
    by blast
  have 3: "notifier_events happy server_notice {} = [Notify server_notice, ?text]"
    using h d(1) e notifier_delivery [of happy server_notice without_file "{}"] by blast
  have v: "ok server_notice = True" "stage server_notice = StageServerPage"
    "msg server_notice = MsgServerOpened"
    by (simp_all add: server_notice_def)
  show ?thesis
    using m h 1 2 3 unfolding v by blast
qed

text \<open>
  C10. When the text request throws, the notifier reads no file and issues no photo
  request; a photo request in the trace means that the text request was issued before it
  and returned.
\<close>

theorem photo_needs_text:
  "(deliveryFault w (SendMessage (ok n) (stage n) (msg n)) = Some m \<longrightarrow>
      SendPhoto st p \<notin> set (notifier_events w n F) \<and>
      ReadFile p \<notin> set (notifier_events w n F)) \<and>
   (SendPhoto st p \<in> set (notifier_events w n F) \<longrightarrow>
      deliveryFault w (SendMessage (ok n) (stage n) (msg n)) = None \<and>
      take 2 (notifier_events w n F) = [Notify n, SendMessage (ok n) (stage n) (msg n)])"
  by (auto simp add: notifier_events_eq split: option.splits if_splits)

theorem photo_needs_text_witness:
  "chat_configured offline \<and>
   screenshot ''04-server-page'' \<in> {screenshot ''04-server-page''} \<and>
   deliveryFault offline (SendMessage True StageServerPage MsgServerOpened) = Some ''fetch failed'' \<and>
   SendPhoto StageServerPage (screenshot ''04-server-page'')
     \<notin> set (notifier_events offline server_notice {screenshot ''04-server-page''}) \<and>
   SendPhoto StageServerPage (screenshot ''04-server-page'')
     \<in> set (notifier_events happy server_notice {screenshot ''04-server-page''}) \<and>
   deliveryFault happy (SendMessage True StageServerPage MsgServerOpened) = None"
proof -
  have o: "deliveryFault offline (SendMessage True StageServerPage MsgServerOpened)
      = Some ''fetch failed''"
    by (simp add: offline_def)
  have c: "chat_configured offline"
    by (simp add: chat_configured_def offline_def happy_def)
  have p: "ok server_notice = True" "stage server_notice = StageServerPage"
    "msg server_notice = MsgServerOpened"
    by (simp_all add: server_notice_def)
  have i: "SendPhoto StageServerPage (screenshot ''04-server-page'')
     \<in> set (notifier_events happy server_notice {screenshot ''04-server-page''})"
    by (simp add: notifier_events_happy_file)
  show ?thesis
    using o c p i
      photo_needs_text [of offline server_notice "''fetch failed''" StageServerPage
        "screenshot ''04-server-page''" "{screenshot ''04-server-page''}"]
      photo_needs_text [of happy server_notice "''fetch failed''" StageServerPage
        "screenshot ''04-server-page''" "{screenshot ''04-server-page''}"]
    by simp
qed

section \<open>Missing credentials (claim C7)\<close>

text \<open>
  C7. When \<open>LUNES_USERNAME\<close> or \<open>LUNES_PASSWORD\<close> is unset or empty, \<open>main\<close>
  throws \<open>envOrThrow\<close>'s error for the first such variable and has done nothing: the
  trace is empty (no launch, no navigation, no notifier, no request), no exit code is
  set, and the disk is untouched.
\<close>

theorem missing_credentials_abort:
  assumes "falsy (env w ''LUNES_USERNAME'') \<or> falsy (env w ''LUNES_PASSWORD'')"
  shows "fst (main w) =
           Some (EnvNotSet (if falsy (env w ''LUNES_USERNAME'') then ''LUNES_USERNAME''
                            else ''LUNES_PASSWORD'')) \<and>
         trace (snd (main w)) = [] \<and>
         exitCode (snd (main w)) = None \<and>
         files (snd (main w)) = disk w"
  using assms by (simp add: main_no_credentials credentials_def initial_def)

theorem missing_credentials_abort_witness:
  "falsy (env no_password ''LUNES_PASSWORD'') \<and>
   fst (main no_password) = Some (EnvNotSet ''LUNES_PASSWORD'') \<and>
   trace (snd (main no_password)) = []"
proof -
  have f: "falsy (env no_password ''LUNES_PASSWORD'')"
    "\<not> falsy (env no_password ''LUNES_USERNAME'')"
    by (simp_all add: no_password_def)
  show ?thesis
    using f missing_credentials_abort [of no_password] by simp
qed


section \<open>The verdict and the downstream sequence (claims C1, C5)\<close>

text \<open>
  C1. The verdict of a run is the disjunction of the two signals: the URL no longer
  matches the login path, or a logged-in marker is on the page.
  \<^item> In every run, a step of the downstream sequence (server, console, restart,
    command, or a success notice) is issued only if one of the signals holds.
  \<^item> In a run that comes to the verdict, the success notice is given, and the first
    downstream step (waiting for the server link) is issued, exactly when one of the
    signals holds.
\<close>

theorem login_verdict:
  "(list_ex is_downstream_step (trace (snd (main w))) \<longrightarrow>
      \<not> stillOnLogin (pageUrl w) \<or> 0 < successCount w) \<and>
   (reaches_verdict w \<longrightarrow>
      (Notify \<lparr>ok = True, stage = StageLoginOk, msg = MsgCurrentUrl (pageUrl w),
         screenshotPath = Some (screenshot ''03-after-submit'')\<rparr> \<in> set (trace (snd (main w))))
        = (\<not> stillOnLogin (pageUrl w) \<or> 0 < successCount w) \<and>
      (WaitVisible ServerLink 20000 \<in> set (trace (snd (main w))))
        = (\<not> stillOnLogin (pageUrl w) \<or> 0 < successCount w))"
proof -
  let ?ok = "Notify \<lparr>ok = True, stage = StageLoginOk, msg = MsgCurrentUrl (pageUrl w),
         screenshotPath = Some (screenshot ''03-after-submit'')\<rparr>"
  have none: "\<not> list_ex is_downstream_step (trace (snd (main w))) \<and>
      ?ok \<notin> set (trace (snd (main w))) \<and>
      WaitVisible ServerLink 20000 \<notin> set (trace (snd (main w)))"
    if "\<not> loginSucceeded w"
  proof -
    have a: "\<forall>e \<in> set (trace (snd (main w))). \<not> is_downstream_step e"
      using no_downstream_without_success [OF that] by (simp add: list_all_iff)
    have "is_downstream_step ?ok" "is_downstream_step (WaitVisible ServerLink 20000)"
      by (simp_all add: is_downstream_step_def)
    with a show ?thesis by (auto simp add: list_ex_iff)
  qed
  have both: "?ok \<in> set (trace (snd (main w))) \<and>
      WaitVisible ServerLink 20000 \<in> set (trace (snd (main w)))"
    if r: "reaches_verdict w" and s: "loginSucceeded w"
  proof -
    obtain xs where xs: "runner_view (trace (snd (main w))) =
        launching @ arriving @ submitting w @ attempted w (downstream_sequence w) @ xs"
      using success_shape [OF r s] by blast
    obtain ys where ys: "attempted w (downstream_sequence w) =
        ?ok # WaitVisible ServerLink 20000 # ys"
      using attempted_starts by blast
    have "?ok \<in> set (runner_view (trace (snd (main w))))"
      "WaitVisible ServerLink 20000 \<in> set (runner_view (trace (snd (main w))))"
      unfolding xs ys by simp_all
    then show ?thesis by (simp add: runner_view_def)
  qed
  show ?thesis
  proof (cases "loginSucceeded w")
    case True
    with both show ?thesis
      by (simp add: loginSucceeded_def)
  next
    case False
    with none [OF False] show ?thesis
      by (simp add: loginSucceeded_def)
  qed
qed

lemma reaches_verdict_quiet:
  "credentials w \<Longrightarrow> challengeCount w = 0 \<Longrightarrow> fault w = (\<lambda>e. None) \<Longrightarrow> reaches_verdict w"
  by (simp add: reaches_verdict_def returns_quiet)

lemma reaches_verdict_happy: "reaches_verdict happy"
  by (rule reaches_verdict_quiet) (simp_all add: happy_def credentials_def)

lemma reaches_verdict_marker_only: "reaches_verdict marker_only"
  by (rule reaches_verdict_quiet) (simp_all add: marker_only_def happy_def credentials_def)

lemma reaches_verdict_rejected: "reaches_verdict rejected"
  by (rule reaches_verdict_quiet) (simp_all add: rejected_def happy_def credentials_def)

lemma reaches_verdict_server_missing: "reaches_verdict server_missing"
  by (simp add: reaches_verdict_def server_missing_def happy_def credentials_def returns_def
      throws_def sequences)

lemma left_login_page: "\<not> stillOnLogin ''https://ctrl.lunes.host/''"
  by (simp add: stillOnLogin_def fold_case_def)

lemma on_login_page: "stillOnLogin ''https://ctrl.lunes.host/auth/login''"
  by (simp add: stillOnLogin_def fold_case_def)

theorem login_verdict_witness:
  "reaches_verdict happy \<and> \<not> stillOnLogin (pageUrl happy) \<and> successCount happy = 0 \<and>
   WaitVisible ServerLink 20000 \<in> set (trace (snd (main happy))) \<and>
   reaches_verdict marker_only \<and> stillOnLogin (pageUrl marker_only) \<and>
   successCount marker_only = 1 \<and>
   WaitVisible ServerLink 20000 \<in> set (trace (snd (main marker_only))) \<and>
   reaches_verdict rejected \<and> stillOnLogin (pageUrl rejected) \<and> successCount rejected = 0 \<and>
   WaitVisible ServerLink 20000 \<notin> set (trace (snd (main rejected)))"
proof -
  have h: "\<not> stillOnLogin (pageUrl happy)" "successCount happy = 0"
    by (simp_all add: happy_def left_login_page)
  have m: "stillOnLogin (pageUrl marker_only)" "successCount marker_only = 1"
    by (simp_all add: marker_only_def happy_def on_login_page)
  have r: "stillOnLogin (pageUrl rejected)" "successCount rejected = 0"
    by (simp_all add: rejected_def happy_def on_login_page)
  show ?thesis
    using h m r reaches_verdict_happy reaches_verdict_marker_only reaches_verdict_rejected
      login_verdict [of happy] login_verdict [of marker_only] login_verdict [of rejected]
    by simp
qed

lemma downstream_not_wrapup: "list_all (\<lambda>e. \<not> is_wrapup e) (downstream_sequence w)"
  by (simp add: downstream_sequence_def is_wrapup_def is_delivery_def screenshot_inj)

lemma view_member: "\<not> is_delivery e \<Longrightarrow> (e \<in> set (runner_view es)) = (e \<in> set es)"
  by (simp add: runner_view_def)

lemma success_complete:
  assumes "reaches_verdict w" "loginSucceeded w"
    "returns w (downstream_sequence w @ closing)"
  shows "runner_view (trace (snd (main w))) =
      launching @ arriving @ submitting w @ downstream_sequence w @ closing"
    and "fst (main w) = None"
    and "exitCode (snd (main w)) = Some 0"
proof -
  from assms(3) have d: "returns w (downstream_sequence w)" and c: "returns w closing"
    by (simp_all add: returns_append)
  have n: "fst (downstream w (verdict_state w)) = None"
    by (simp add: downstream_fst d)
  have k: "fault w CloseContext = None" "fault w CloseBrowser = None"
    using c by (simp_all add: returns_def closing_def throws_def)
  show "runner_view (trace (snd (main w))) =
      launching @ arriving @ submitting w @ downstream_sequence w @ closing"
    unfolding main_success [OF assms(1,2)] try_view downstream_view n attempted_all [OF d]
      attempted_all [OF c]
    by (simp add: handling_def verdict_state_def sequences runner_view_Cons runner_view_Nil
        is_delivery_def)
  show "fst (main w) = None"
    unfolding main_success [OF assms(1,2)] try_fst by (simp add: k)
  show "exitCode (snd (main w)) = Some 0"
    by (simp add: success_exit [OF assms(1,2)] d)
qed

lemma server_missing_succeeds:
  "\<not> stillOnLogin (pageUrl server_missing)" "loginSucceeded server_missing"
  by (simp_all add: loginSucceeded_def server_missing_def happy_def left_login_page)

lemma server_missing_downstream:
  "fst (downstream server_missing s) = Some (Thrown ''Timeout'')"
  by (simp add: downstream_def steps_notify steps_call server_missing_def)

lemma server_missing_attempted:
  "attempted server_missing (downstream_sequence server_missing) =
     [Notify \<lparr>ok = True, stage = StageLoginOk, msg = MsgCurrentUrl (pageUrl server_missing),
        screenshotPath = Some (screenshot ''03-after-submit'')\<rparr>,
      WaitVisible ServerLink 20000]"
  by (simp add: downstream_sequence_def throws_def server_missing_def)

lemma server_missing_view:
  "runner_view (trace (snd (main server_missing))) =
     launching @ arriving @ submitting server_missing @
     [Notify \<lparr>ok = True, stage = StageLoginOk, msg = MsgCurrentUrl (pageUrl server_missing),
        screenshotPath = Some (screenshot ''03-after-submit'')\<rparr>,
      WaitVisible ServerLink 20000,
      Screenshot (screenshot ''99-error''),
      Notify (exception_notice (Thrown ''Timeout'') True),
      CloseContext, CloseBrowser]"
proof -
  have h: "handling server_missing (Some (Thrown ''Timeout'')) F =
      [Screenshot (screenshot ''99-error''),
       Notify (exception_notice (Thrown ''Timeout'') True)]" for F
    by (simp add: handling_def server_missing_def)
  have c: "attempted server_missing closing = [CloseContext, CloseBrowser]"
    by (simp add: closing_def throws_def server_missing_def)
  show ?thesis
    unfolding main_success [OF reaches_verdict_server_missing server_missing_succeeds(2)]
      try_view downstream_view server_missing_downstream server_missing_attempted h c
    by (simp add: verdict_state_def sequences runner_view_Cons runner_view_Nil is_delivery_def)
qed

text \<open>
  C5, as stated, fails in a run where the login succeeds and the server link never
  shows: the run comes to the verdict with the URL off the login path, gives the
  success notice, waits for the link, and then takes the error screenshot, gives the
  exception notice and releases. The click on the link, the click on Restart and the
  command are never issued; \<open>main\<close> returns with exit code 1.
\<close>

theorem downstream_cut_short_counterexample:
  "reaches_verdict server_missing \<and> \<not> stillOnLogin (pageUrl server_missing) \<and>
   runner_view (trace (snd (main server_missing))) =
     launching @ arriving @ submitting server_missing @
     [Notify \<lparr>ok = True, stage = StageLoginOk, msg = MsgCurrentUrl (pageUrl server_missing),
        screenshotPath = Some (screenshot ''03-after-submit'')\<rparr>,
      WaitVisible ServerLink 20000,
      Screenshot (screenshot ''99-error''),
      Notify (exception_notice (Thrown ''Timeout'') True),
      CloseContext, CloseBrowser] \<and>
   Click ServerLink (Some 10000) \<notin> set (trace (snd (main server_missing))) \<and>
   Click RestartButton None \<notin> set (trace (snd (main server_missing))) \<and>
   Fill CommandInput ''working properly'' \<notin> set (trace (snd (main server_missing))) \<and>
   fst (main server_missing) = None \<and>
   exitCode (snd (main server_missing)) = Some 1"
proof -
  note v = server_missing_view
  have m: "Click ServerLink (Some 10000) \<notin> set (runner_view (trace (snd (main server_missing))))"
    "Click RestartButton None \<notin> set (runner_view (trace (snd (main server_missing))))"
    "Fill CommandInput ''working properly''
       \<notin> set (runner_view (trace (snd (main server_missing))))"
    unfolding v by (simp_all add: sequences)
  have n: "Click ServerLink (Some 10000) \<notin> set (trace (snd (main server_missing)))"
    "Click RestartButton None \<notin> set (trace (snd (main server_missing)))"
    "Fill CommandInput ''working properly'' \<notin> set (trace (snd (main server_missing)))"
    using m by (simp_all add: view_member is_delivery_def)
  have f: "fst (main server_missing) = None"
    unfolding main_success [OF reaches_verdict_server_missing server_missing_succeeds(2)]
      try_fst
    by (simp add: server_missing_def)
  have "\<not> returns server_missing (downstream_sequence server_missing)"
    using server_missing_downstream [of "verdict_state server_missing"]
      downstream_fst [of server_missing "verdict_state server_missing"]
    by simp
  then have x: "exitCode (snd (main server_missing)) = Some 1"
    by (simp add: success_exit [OF reaches_verdict_server_missing server_missing_succeeds(2)])
  from v n f x reaches_verdict_server_missing server_missing_succeeds(1) show ?thesis
    by simp
qed

text \<open>
  C5, amended. In a run that comes to the verdict with one of the two signals, what
  \<open>main\<close> does after the verdict is: the calls of the downstream sequence, in the
  order of the sequence and with none left out, up to and including the first call that
  throws; then nothing but the error screenshot, the exception notice and the two
  releases, none of which is a step of the sequence. When no call of the sequence
  throws, the whole sequence is issued; when moreover the two releases return, the run
  is the whole sequence followed by the releases and \<open>main\<close> returns with exit code 0.
  When a call of the sequence throws, the exit code is 1. The sequence puts the restart
  notice right after the click on Restart, before the first sleep.
\<close>

theorem downstream_order:
  assumes "reaches_verdict w" "\<not> stillOnLogin (pageUrl w) \<or> 0 < successCount w"
  shows "(\<exists>xs. runner_view (trace (snd (main w))) =
            launching @ arriving @ submitting w @ attempted w (downstream_sequence w) @ xs \<and>
            list_all is_wrapup xs) \<and>
         prefix (attempted w (downstream_sequence w)) (downstream_sequence w) \<and>
         list_all (\<lambda>e. \<not> is_wrapup e) (downstream_sequence w) \<and>
         (returns w (downstream_sequence w) \<longrightarrow>
            attempted w (downstream_sequence w) = downstream_sequence w) \<and>
         (returns w (downstream_sequence w @ closing) \<longrightarrow>
            runner_view (trace (snd (main w))) =
              launching @ arriving @ submitting w @ downstream_sequence w @ closing \<and>
            fst (main w) = None \<and>
            exitCode (snd (main w)) = Some 0) \<and>
         (\<not> returns w (downstream_sequence w) \<longrightarrow> exitCode (snd (main w)) = Some 1)"
proof -
  from assms(2) have s: "loginSucceeded w"
    by (simp add: loginSucceeded_def)
  note shape = success_shape [OF assms(1) s]
  note order = attempted_prefix [of w "downstream_sequence w"]
  have full: "attempted w (downstream_sequence w) = downstream_sequence w"
    if "returns w (downstream_sequence w)"
    by (rule attempted_all [OF that])
  have whole: "runner_view (trace (snd (main w))) =
        launching @ arriving @ submitting w @ downstream_sequence w @ closing \<and>
      fst (main w) = None \<and> exitCode (snd (main w)) = Some 0"
    if "returns w (downstream_sequence w @ closing)"
    using success_complete [OF assms(1) s that] by simp
  have part: "exitCode (snd (main w)) = Some 1" if "\<not> returns w (downstream_sequence w)"
    using that success_exit [OF assms(1) s] by simp
  from shape order downstream_not_wrapup full whole part show ?thesis
    by blast
qed

theorem downstream_order_witness:
  "reaches_verdict happy \<and> \<not> stillOnLogin (pageUrl happy) \<and>
   returns happy (downstream_sequence happy @ closing) \<and>
   attempted happy (downstream_sequence happy) = downstream_sequence happy \<and>
   runner_view (trace (snd (main happy))) =
     launching @ arriving @ submitting happy @ downstream_sequence happy @ closing \<and>
   fst (main happy) = None \<and>
   exitCode (snd (main happy)) = Some 0 \<and>
   reaches_verdict server_missing \<and> \<not> stillOnLogin (pageUrl server_missing) \<and>
   throws server_missing (WaitVisible ServerLink 20000) = Some ''Timeout'' \<and>
   exitCode (snd (main server_missing)) = Some 1"
proof -
  have h: "\<not> stillOnLogin (pageUrl happy)" "returns happy (downstream_sequence happy @ closing)"
    "returns happy (downstream_sequence happy)"
    by (simp_all add: happy_def left_login_page returns_quiet)
  have m: "\<not> stillOnLogin (pageUrl server_missing)"
    "throws server_missing (WaitVisible ServerLink 20000) = Some ''Timeout''"
    by (simp_all add: server_missing_def happy_def left_login_page throws_def)
  have n: "\<not> returns server_missing (downstream_sequence server_missing)"
    using m(2) by (auto simp add: returns_def downstream_sequence_def)
  have a: "attempted happy (downstream_sequence happy) = downstream_sequence happy \<and>
      runner_view (trace (snd (main happy))) =
        launching @ arriving @ submitting happy @ downstream_sequence happy @ closing \<and>
      fst (main happy) = None \<and> exitCode (snd (main happy)) = Some 0"
    using downstream_order [OF reaches_verdict_happy] h by blast
  have b: "exitCode (snd (main server_missing)) = Some 1"
    using downstream_order [OF reaches_verdict_server_missing] m(1) n by blast
  from a b h m reaches_verdict_happy reaches_verdict_server_missing show ?thesis
    by blast
qed


section \<open>The failed login (claim C4)\<close>

lemma failure_view:
  assumes "reaches_verdict w" "\<not> loginSucceeded w"
  shows "runner_view (trace (snd (main w))) =
     launching @ arriving @ submitting w @ Count ErrorText #
     (case fault w (Count ErrorText) of
        Some m \<Rightarrow>
          handling w (Some (Thrown m))
            (insert (screenshot ''03-after-submit'')
              (insert (screenshot ''02-before-submit'') (disk w)))
      | None \<Rightarrow>
          (if 0 < errorCount w then [InnerText ErrorText] else []) @
          [Notify \<lparr>ok = False, stage = StageLoginFailed,
             msg = (if errorMsg w \<noteq> [] then MsgSuspected (errorMsg w) else MsgStillOnLogin),
             screenshotPath = Some (screenshot ''03-after-submit'')\<rparr>])
     @ attempted w closing"
  unfolding main_failure [OF assms] try_view loginFailed_run
  by (simp add: verdict_state_def sequences emit_def handling_def runner_view_append
      runner_view_Cons runner_view_Nil notifier_events_view is_delivery_def split: option.splits)

lemma failure_exit:
  assumes "reaches_verdict w" "\<not> loginSucceeded w"
  shows "exitCode (snd (main w)) = Some 1"
  unfolding main_failure [OF assms] try_exit loginFailed_run
  by (simp split: option.splits)

text \<open>
  C4. In a run that comes to the verdict with the URL still on the login path and no
  logged-in marker:
  \<^item> the exit code is 1, whatever the later calls do;
  \<^item> no step of the downstream sequence is issued;
  \<^item> the notifier is invoked exactly once, with a failure notice;
  \<^item> the error texts on the page are counted;
  \<^item> when counting the error texts returns, that notice is the login-failure notice
    with the screenshot taken after the submission, and the error text is read from the
    page exactly when the count is positive;
  \<^item> the error message is empty when the count is zero or reading the text throws, and
    is the page's text otherwise; an empty message gives the notice "still on the login
    page".
\<close>

theorem login_failure:
  assumes "reaches_verdict w" "stillOnLogin (pageUrl w)" "successCount w = 0"
  shows "exitCode (snd (main w)) = Some 1 \<and>
         \<not> list_ex is_downstream_step (trace (snd (main w))) \<and>
         map ok (notices (trace (snd (main w)))) = [False] \<and>
         Count ErrorText \<in> set (trace (snd (main w))) \<and>
         (fault w (Count ErrorText) = None \<longrightarrow>
            notices (trace (snd (main w))) =
              [\<lparr>ok = False, stage = StageLoginFailed,
                msg = (if errorMsg w = [] then MsgStillOnLogin else MsgSuspected (errorMsg w)),
                screenshotPath = Some (screenshot ''03-after-submit'')\<rparr>] \<and>
            (InnerText ErrorText \<in> set (trace (snd (main w)))) = (0 < errorCount w)) \<and>
         (errorCount w = 0 \<or> fault w (InnerText ErrorText) \<noteq> None \<longrightarrow> errorMsg w = []) \<and>
         (0 < errorCount w \<and> fault w (InnerText ErrorText) = None \<longrightarrow>
            errorMsg w = errorText w)"
proof -
  from assms(2,3) have f: "\<not> loginSucceeded w"
    by (simp add: loginSucceeded_def)
  note v = failure_view [OF assms(1) f]
  have 1: "exitCode (snd (main w)) = Some 1"
    by (rule failure_exit [OF assms(1) f])
  have 2: "\<not> list_ex is_downstream_step (trace (snd (main w)))"
    using no_downstream_without_success [OF f] by (simp add: list_all_iff list_ex_iff)
  have n: "notices (trace (snd (main w))) =
      (case fault w (Count ErrorText) of
         Some m \<Rightarrow>
           [exception_notice (Thrown m)
              (fault w (Screenshot (screenshot ''99-error'')) = None \<or>
               screenshot ''99-error'' \<in> insert (screenshot ''03-after-submit'')
                 (insert (screenshot ''02-before-submit'') (disk w)))]
       | None \<Rightarrow>
           [\<lparr>ok = False, stage = StageLoginFailed,
             msg = (if errorMsg w = [] then MsgStillOnLogin else MsgSuspected (errorMsg w)),
             screenshotPath = Some (screenshot ''03-after-submit'')\<rparr>])"
    unfolding notices_view [symmetric, of "trace (snd (main w))"] v
    by (simp add: sequences handling_def notices_simps notices_closing split: option.splits)
  have 3: "map ok (notices (trace (snd (main w)))) = [False]"
    unfolding n by (simp add: exception_notice_def split: option.splits)
  have i: "(InnerText ErrorText \<in> set (runner_view (trace (snd (main w))))) = (0 < errorCount w)"
    if "fault w (Count ErrorText) = None"
    unfolding v using that by (simp add: sequences closing_def split: option.splits)
  have 4: "(InnerText ErrorText \<in> set (trace (snd (main w)))) = (0 < errorCount w)"
    if "fault w (Count ErrorText) = None"
    using i [OF that] by (simp add: runner_view_def is_delivery_def)
  have "Count ErrorText \<in> set (runner_view (trace (snd (main w))))"
    unfolding v by simp
  then have 7: "Count ErrorText \<in> set (trace (snd (main w)))"
    by (simp add: runner_view_def)
  have 5: "errorMsg w = []" if "errorCount w = 0 \<or> fault w (InnerText ErrorText) \<noteq> None"
    using that by (auto simp add: errorMsg_def)
  have 6: "errorMsg w = errorText w"
    if "0 < errorCount w \<and> fault w (InnerText ErrorText) = None"
    using that by (simp add: errorMsg_def)
  from 1 2 3 4 5 6 7 n show ?thesis
    by simp
qed

theorem login_failure_witness:
  "reaches_verdict rejected \<and> stillOnLogin (pageUrl rejected) \<and> successCount rejected = 0 \<and>
   fault rejected (Count ErrorText) = None \<and> fault rejected (InnerText ErrorText) = None \<and>
   errorCount rejected = 1 \<and>
   exitCode (snd (main rejected)) = Some 1 \<and>
   errorMsg rejected = ''Invalid credentials'' \<and>
   notices (trace (snd (main rejected))) =
     [\<lparr>ok = False, stage = StageLoginFailed, msg = MsgSuspected ''Invalid credentials'',
       screenshotPath = Some (screenshot ''03-after-submit'')\<rparr>] \<and>
   InnerText ErrorText \<in> set (trace (snd (main rejected)))"
proof -
  have r: "stillOnLogin (pageUrl rejected)" "successCount rejected = 0"
    "fault rejected (Count ErrorText) = None" "fault rejected (InnerText ErrorText) = None"
    "errorCount rejected = 1" "errorText rejected = ''Invalid credentials''"
    by (simp_all add: rejected_def happy_def on_login_page)
  have t: "exitCode (snd (main rejected)) = Some 1 \<and> errorMsg rejected = errorText rejected \<and>
     notices (trace (snd (main rejected))) =
       [\<lparr>ok = False, stage = StageLoginFailed,
         msg = (if errorMsg rejected = [] then MsgStillOnLogin
                else MsgSuspected (errorMsg rejected)),
         screenshotPath = Some (screenshot ''03-after-submit'')\<rparr>] \<and>
     InnerText ErrorText \<in> set (trace (snd (main rejected)))"
    using login_failure [OF reaches_verdict_rejected r(1,2)] r(3,4,5) by simp
  from t r reaches_verdict_rejected show ?thesis
    by simp
qed

section \<open>The challenge (claim C3)\<close>










section \<open>The successful run (claim C2)\<close>

lemma returns_remove1: "returns w es \<Longrightarrow> returns w (remove1 x es)"
  by (auto simp add: returns_def dest: notin_set_remove1)

lemma downstream_files:
  "returns w (downstream_sequence w) \<Longrightarrow>
   files (snd (downstream w s)) =
     insert (screenshot ''05-command-executed'') (insert (screenshot ''04-server-page'') (files s))"
  by (simp add: downstream_def downstream_sequence_def returns_def throws_def
      steps_Nil steps_call steps_shot steps_setExit steps_notify emit_def)

lemma happy_run:
  assumes "credentials w" "challengeCount w = 0" "\<not> stillOnLogin (pageUrl w)"
    "returns w (launching @ arriving @ submitting w @ downstream_sequence w @ closing)"
  shows "runner_view (trace (snd (main w))) =
      launching @ arriving @ submitting w @ downstream_sequence w @ closing"
    and "exitCode (snd (main w)) = Some 0"
    and "fst (main w) = None"
    and "files (snd (main w)) =
      disk w \<union> {screenshot ''02-before-submit'', screenshot ''03-after-submit'',
        screenshot ''04-server-page'', screenshot ''05-command-executed''}"
proof -
  from assms(4) have l: "returns w launching" and a: "returns w arriving"
    and b: "returns w (submitting w)" and d: "returns w (downstream_sequence w)"
    and c: "returns w closing"
    by (simp_all add: returns_append)
  have v: "reaches_verdict w"
    using assms(1,2) l a returns_remove1 [OF b]
    by (simp add: reaches_verdict_def returns_append)
  have s: "loginSucceeded w"
    using assms(3) by (simp add: loginSucceeded_def)
  have n: "fst (downstream w (verdict_state w)) = None"
    by (simp add: downstream_fst d)
  have k: "fault w CloseContext = None" "fault w CloseBrowser = None"
    using c by (simp_all add: returns_def closing_def throws_def)
  show "runner_view (trace (snd (main w))) =
      launching @ arriving @ submitting w @ downstream_sequence w @ closing"
    unfolding main_success [OF v s] try_view downstream_view n attempted_all [OF d]
      attempted_all [OF c]
    by (simp add: handling_def verdict_state_def sequences runner_view_Cons runner_view_Nil
        is_delivery_def)
  show "exitCode (snd (main w)) = Some 0"
    by (simp add: success_exit [OF v s] d)
  show "fst (main w) = None"
    unfolding main_success [OF v s] try_fst by (simp add: k)
  show "files (snd (main w)) =
      disk w \<union> {screenshot ''02-before-submit'', screenshot ''03-after-submit'',
        screenshot ''04-server-page'', screenshot ''05-command-executed''}"
    unfolding main_success [OF v s] try_none [of "downstream w" "verdict_state w", OF n]
      release_files downstream_files [OF d]
    by (auto simp add: verdict_state_def)
qed

lemma happy_screenshots:
  "screenshots (launching @ arriving @ submitting w @ downstream_sequence w @ closing) =
     [screenshot ''02-before-submit'', screenshot ''03-after-submit'',
      screenshot ''04-server-page'', screenshot ''05-command-executed'']"
  by (simp add: sequences screenshots_simps)

lemma happy_notices:
  "notices (launching @ arriving @ submitting w @ downstream_sequence w @ closing) =
     [\<lparr>ok = True, stage = StageLoginOk, msg = MsgCurrentUrl (pageUrl w),
        screenshotPath = Some (screenshot ''03-after-submit'')\<rparr>,
      \<lparr>ok = True, stage = StageServerPage, msg = MsgServerOpened,
        screenshotPath = Some (screenshot ''04-server-page'')\<rparr>,
      \<lparr>ok = True, stage = StageRestart, msg = MsgRestarting, screenshotPath = None\<rparr>,
      \<lparr>ok = True, stage = StageCommandDone, msg = MsgScriptRan,
        screenshotPath = Some (screenshot ''05-command-executed'')\<rparr>]"
  by (simp add: sequences notices_simps)

lemma happy_hypotheses:
  "credentials happy" "challengeCount happy = 0" "\<not> stillOnLogin (pageUrl happy)"
  "returns happy es"
  by (simp_all add: happy_def credentials_def left_login_page returns_quiet)

lemma server_missing_run:
  "credentials server_missing" "challengeCount server_missing = 0"
  "\<not> stillOnLogin (pageUrl server_missing)"
  "returns server_missing (launching @ arriving @ submitting server_missing)"
  "exitCode (snd (main server_missing)) = Some 1"
proof -
  show c: "credentials server_missing" "challengeCount server_missing = 0"
    by (simp_all add: server_missing_def happy_def credentials_def)
  show u: "\<not> stillOnLogin (pageUrl server_missing)"
    by (simp add: server_missing_def happy_def left_login_page)
  show "returns server_missing (launching @ arriving @ submitting server_missing)"
    by (simp add: server_missing_def happy_def returns_def throws_def sequences)
  have "throws server_missing (WaitVisible ServerLink 20000) = Some ''Timeout''"
    by (simp add: server_missing_def throws_def)
  then have n: "\<not> returns server_missing (downstream_sequence server_missing)"
    by (auto simp add: returns_def downstream_sequence_def)
  from u have s: "loginSucceeded server_missing"
    by (simp add: loginSucceeded_def)
  show "exitCode (snd (main server_missing)) = Some 1"
    by (simp add: success_exit [OF reaches_verdict_server_missing s] n)
qed

text \<open>
  C2, as stated, fails in the run where everything works: the exit code is 0, and the
  run takes four screenshots, not five, and gives four notices; the restart notice carries
  no screenshot, and the console step has neither a screenshot nor a notice. It also
  fails where the login succeeds and a later call throws: with the credentials set, no
  challenge, the fields there and the URL off the login path, a server link that never
  shows ends the run with exit code 1.
\<close>

theorem five_screenshots_counterexample:
  "credentials happy \<and> challengeCount happy = 0 \<and> \<not> stillOnLogin (pageUrl happy) \<and>
   returns happy
     (launching @ arriving @ submitting happy @ downstream_sequence happy @ closing) \<and>
   exitCode (snd (main happy)) = Some 0 \<and>
   length (screenshots (trace (snd (main happy)))) = 4 \<and>
   length (screenshots (trace (snd (main happy)))) \<noteq> 5 \<and>
   map stage (notices (trace (snd (main happy)))) =
     [StageLoginOk, StageServerPage, StageRestart, StageCommandDone] \<and>
   map screenshotPath (notices (trace (snd (main happy)))) =
     [Some (screenshot ''03-after-submit''), Some (screenshot ''04-server-page''), None,
      Some (screenshot ''05-command-executed'')] \<and>
   credentials server_missing \<and> challengeCount server_missing = 0 \<and>
   \<not> stillOnLogin (pageUrl server_missing) \<and>
   returns server_missing (launching @ arriving @ submitting server_missing) \<and>
   exitCode (snd (main server_missing)) = Some 1 \<and>
   exitCode (snd (main server_missing)) \<noteq> Some 0"
proof -
  note r = happy_run [OF happy_hypotheses]
  have s: "screenshots (trace (snd (main happy))) =
     [screenshot ''02-before-submit'', screenshot ''03-after-submit'',
      screenshot ''04-server-page'', screenshot ''05-command-executed'']"
    unfolding screenshots_view [symmetric, of "trace (snd (main happy))"] r(1)
    by (rule happy_screenshots)
  have n: "notices (trace (snd (main happy))) =
     notices (launching @ arriving @ submitting happy @ downstream_sequence happy @ closing)"
    unfolding notices_view [symmetric, of "trace (snd (main happy))"] r(1) ..
  show ?thesis
    unfolding s n happy_notices using happy_hypotheses r(2) server_missing_run by simp
qed

text \<open>
  C2, amended. In a run where both credentials are set, the login page shows no
  challenge, no call throws, and the URL after the submission is off the login path,
  \<open>main\<close> returns with exit code 0. It takes four screenshots, in this order:
  \<open>02-before-submit\<close>, \<open>03-after-submit\<close>, \<open>04-server-page\<close>,
  \<open>05-command-executed\<close>, and these four files are what it adds to the disk. It gives
  four notices, all successes, in this order: login (with \<open>03-after-submit\<close>), server
  page (with \<open>04-server-page\<close>), restart (without a screenshot), command (with
  \<open>05-command-executed\<close>). The console step takes no screenshot and gives no notice.
\<close>

theorem successful_run:
  assumes "credentials w" "challengeCount w = 0" "\<not> stillOnLogin (pageUrl w)"
    "returns w (launching @ arriving @ submitting w @ downstream_sequence w @ closing)"
  shows "fst (main w) = None \<and>
         exitCode (snd (main w)) = Some 0 \<and>
         screenshots (trace (snd (main w))) =
           [screenshot ''02-before-submit'', screenshot ''03-after-submit'',
            screenshot ''04-server-page'', screenshot ''05-command-executed''] \<and>
         files (snd (main w)) =
           disk w \<union> {screenshot ''02-before-submit'', screenshot ''03-after-submit'',
             screenshot ''04-server-page'', screenshot ''05-command-executed''} \<and>
         notices (trace (snd (main w))) =
           [\<lparr>ok = True, stage = StageLoginOk, msg = MsgCurrentUrl (pageUrl w),
              screenshotPath = Some (screenshot ''03-after-submit'')\<rparr>,
            \<lparr>ok = True, stage = StageServerPage, msg = MsgServerOpened,
              screenshotPath = Some (screenshot ''04-server-page'')\<rparr>,
            \<lparr>ok = True, stage = StageRestart, msg = MsgRestarting, screenshotPath = None\<rparr>,
            \<lparr>ok = True, stage = StageCommandDone, msg = MsgScriptRan,
              screenshotPath = Some (screenshot ''05-command-executed'')\<rparr>] \<and>
         runner_view (trace (snd (main w))) =
           launching @ arriving @ submitting w @ downstream_sequence w @ closing"
proof -
  note r = happy_run [OF assms]
  have s: "screenshots (trace (snd (main w))) =
     [screenshot ''02-before-submit'', screenshot ''03-after-submit'',
      screenshot ''04-server-page'', screenshot ''05-command-executed'']"
    unfolding screenshots_view [symmetric, of "trace (snd (main w))"] r(1)
    by (rule happy_screenshots)
  have n: "notices (trace (snd (main w))) =
     notices (launching @ arriving @ submitting w @ downstream_sequence w @ closing)"
    unfolding notices_view [symmetric, of "trace (snd (main w))"] r(1) ..
  from r s n [unfolded happy_notices] show ?thesis
    by simp
qed

theorem successful_run_witness:
  "credentials happy \<and> challengeCount happy = 0 \<and> \<not> stillOnLogin (pageUrl happy) \<and>
   returns happy
     (launching @ arriving @ submitting happy @ downstream_sequence happy @ closing) \<and>
   fst (main happy) = None \<and>
   exitCode (snd (main happy)) = Some 0 \<and>
   screenshots (trace (snd (main happy))) =
     [screenshot ''02-before-submit'', screenshot ''03-after-submit'',
      screenshot ''04-server-page'', screenshot ''05-command-executed''] \<and>
   files (snd (main happy)) =
     {screenshot ''02-before-submit'', screenshot ''03-after-submit'',
      screenshot ''04-server-page'', screenshot ''05-command-executed''}"
proof -
  have d: "disk happy = {}"
    by (simp add: happy_def)
  show ?thesis
    using successful_run [OF happy_hypotheses] happy_hypotheses d by simp
qed

section \<open>Releasing the browser (claim C6)\<close>

lemma wrapup_or_close:
  "list_all (\<lambda>e. \<not> is_close e) (handling w r F)"
  by (simp add: handling_def is_close_def split: option.splits)

lemma workflow_no_close: "adds_only (\<lambda>e. \<not> is_close e) (workflow w u p)"
  by (auto simp add: workflow_def blocked_def submit_def downstream_def loginFailed_def
      is_close_def is_delivery_def split: event.splits intro!: adds_only_intros)

lemma close_view: "filter is_close (runner_view es) = filter is_close es"
  by (induction es) (auto simp add: runner_view_def is_close_def is_delivery_def split: event.splits)

lemma close_closing: "filter is_close (attempted w closing) = attempted w closing"
  by (simp add: closing_def is_close_def split: option.splits)

text \<open>
  What holds of the release: in a run that enters the \<open>try\<close> (the browser, the
  context and the page were created), whatever happens in the body and the handler, the
  context is closed once, at the end, and after it the browser, once, unless closing the
  context throws.
\<close>

lemma release_after_try:
  assumes "credentials w" "returns w launching"
  shows "filter is_close (trace (snd (main w))) = attempted w closing"
proof -
  let ?s = "\<lparr>trace = launching, exitCode = None, files = disk w\<rparr>"
  let ?b = "workflow w (usernameOf w) (passwordOf w)"
  obtain xs where xs: "trace (snd (?b ?s)) = trace ?s @ xs" "list_all (\<lambda>e. \<not> is_close e) xs"
    using workflow_no_close [of w "usernameOf w" "passwordOf w"] unfolding adds_only_def by blast
  have b: "filter is_close (trace (snd (?b ?s))) = []"
    unfolding xs(1) using xs(2) by (simp add: launching_def is_close_def list_all_iff)
  have h: "filter is_close (handling w r F) = []" for r F
    using wrapup_or_close [of w r F] by (simp add: list_all_iff)
  have "filter is_close (runner_view (trace (snd (main w)))) = attempted w closing"
    unfolding main_launched [OF assms] try_view
    by (simp add: close_view b h close_closing)
  then show ?thesis
    by (simp add: close_view)
qed

text \<open>
  C6 fails on the code. The context and the page are created before the \<open>try\<close>: when
  \<^verbatim>\<open>browser.newContext()\<close> throws, the browser is running, \<open>main\<close> rejects, and
  neither release is issued. And the two releases are one after the other in the
  \<open>finally\<close>: when \<^verbatim>\<open>context.close()\<close> throws, the browser is not closed.
\<close>

theorem browser_not_released:
  "fst (main context_lost) = Some (Thrown ''browser has been closed'') \<and>
   trace (snd (main context_lost)) = [Launch, NewContext] \<and>
   filter is_close (trace (snd (main context_lost))) = [] \<and>
   filter is_close (trace (snd (main close_fails))) = [CloseContext] \<and>
   fst (main close_fails) = Some (Thrown ''Target closed'')"
proof -
  have c: "credentials context_lost" "credentials close_fails"
    by (simp_all add: credentials_def context_lost_def close_fails_def happy_def)
  have 1: "main context_lost =
      (Some (Thrown ''browser has been closed''),
       \<lparr>trace = [Launch, NewContext], exitCode = None, files = {}\<rparr>)"
    unfolding main_credentials [OF c(1)]
    by (simp add: steps_call emit_def initial_def context_lost_def happy_def)
  have l: "returns close_fails launching"
    by (simp add: returns_def throws_def launching_def close_fails_def)
  have 2: "filter is_close (trace (snd (main close_fails))) = [CloseContext]"
    unfolding release_after_try [OF c(2) l]
    by (simp add: closing_def throws_def close_fails_def)
  have 3: "fst (main close_fails) = Some (Thrown ''Target closed'')"
    unfolding main_launched [OF c(2) l] try_fst
    by (simp add: close_fails_def)
  from 1 2 3 show ?thesis
    by (simp add: is_close_def)
qed


end
